theory Spec2Isabelle
  imports Main "HOL-Library.Word" "HOL-Library.Signed_Division"
begin

unbundle bit_operations_syntax

section \<open>ckb-next daemon, \<^verbatim>\<open>src/daemon/main.c\<close>\<close>

text \<open>
  A shallow embedding of the daemon's entry file: the two utility functions
  \<^verbatim>\<open>timespec_add\<close> and \<^verbatim>\<open>localecase\<close>, the shutdown routine \<^verbatim>\<open>quit\<close>, the
  signal handlers, and \<^verbatim>\<open>main\<close>.  Functions that \<^verbatim>\<open>main.c\<close> calls but that are
  defined in other files of the daemon (\<^verbatim>\<open>revertusb\<close>, \<^verbatim>\<open>closeusb\<close>, \<^verbatim>\<open>usbmain\<close>,
  \<^verbatim>\<open>mkdevpath\<close>, ...) and the results of system calls are collected in a record
  of parameters, so that every statement below holds for all of them.
\<close>

section \<open>Definitions\<close>

subsection \<open>\<^verbatim>\<open>timespec_add\<close> (lines 21--25)\<close>

text \<open>
  \<^verbatim>\<open>struct timespec\<close> on an LP64 platform: \<^verbatim>\<open>time_t tv_sec\<close> and \<^verbatim>\<open>long tv_nsec\<close>
  are signed 64-bit integers, read with \<^const>\<open>sint\<close>.
\<close>

record timespec =
  tv_sec :: "64 word"
  tv_nsec :: "64 word"

text \<open>
  C's \<^verbatim>\<open>/\<close> and \<^verbatim>\<open>%\<close> on signed integers truncate towards zero: they are
  \<open>sdiv\<close> and \<open>smod\<close> on the signed values.  The parameter \<^verbatim>\<open>nanoseconds\<close>
  is an \<^verbatim>\<open>int64_t\<close> that the first statement overwrites.
\<close>

definition timespec_add :: "timespec \<Rightarrow> 64 word \<Rightarrow> timespec" where
  "timespec_add timespec nanoseconds0 =
     (let nanoseconds = nanoseconds0 + tv_nsec timespec
      in timespec\<lparr>tv_sec := tv_sec timespec + word_of_int (sint nanoseconds sdiv 1000000000),
                   tv_nsec := word_of_int (sint nanoseconds smod 1000000000)\<rparr>)"

text \<open>The instant a timespec stands for, in nanoseconds.\<close>

definition instant :: "timespec \<Rightarrow> int" where
  "instant t = sint (tv_sec t) * 1000000000 + sint (tv_nsec t)"

definition in_int64 :: "int \<Rightarrow> bool" where
  "in_int64 k \<longleftrightarrow> - (2 ^ 63) \<le> k \<and> k < 2 ^ 63"

text \<open>
  Signed overflow is undefined in C.  The two additions of \<^verbatim>\<open>timespec_add\<close> are
  the only operations that can overflow (the quotient and the remainder of a
  64-bit value by \<open>10^9\<close> always fit).
\<close>

definition timespec_add_no_overflow :: "timespec \<Rightarrow> 64 word \<Rightarrow> bool" where
  "timespec_add_no_overflow t n \<longleftrightarrow>
     in_int64 (sint n + sint (tv_nsec t)) \<and>
     in_int64 (sint (tv_sec t) + (sint n + sint (tv_nsec t)) sdiv 1000000000)"

subsection \<open>\<^verbatim>\<open>localecase\<close> (lines 123--138)\<close>

type_synonym byte = "8 word"

text \<open>
  \<^verbatim>\<open>tolower\<close> of the C library in the "C" locale (the daemon never calls
  \<^verbatim>\<open>setlocale\<close>): the letters \<^verbatim>\<open>'A'\<close>..\<^verbatim>\<open>'Z'\<close> move to \<^verbatim>\<open>'a'\<close>..\<^verbatim>\<open>'z'\<close>, every
  other byte is returned as it is.
\<close>

definition tolower :: "byte \<Rightarrow> byte" where
  "tolower c = (if 0x41 \<le> c \<and> c \<le> 0x5A then c + 0x20 else c)"

definition bytes_of :: "string \<Rightarrow> byte list" where
  "bytes_of str = map of_char str"

text \<open>The body of the loop up to the store: lines 127--130.\<close>

definition lower_char :: "byte \<Rightarrow> byte" where
  "lower_char s = (if s = of_char (CHR ''_'') then of_char (CHR ''-'') else tolower s)"

text \<open>
  The destination is the memory from \<^verbatim>\<open>dst\<close> on, a function from offsets to
  bytes: a store in C does not check any bound, so no offset is out of range for
  the model, and the list of offsets stored to is returned with the memory.
  Pointers are offsets from the initial \<^verbatim>\<open>dst\<close>.  The source is the list of bytes
  from \<^verbatim>\<open>src\<close> on; the loop ends at the first zero byte, and the end of the
  list stands for a terminator too.

  \<open>localecase_loop ldst dst src m w\<close> is the \<^verbatim>\<open>while\<close> loop, started with the
  pointers \<^verbatim>\<open>dst\<close> and \<^verbatim>\<open>src\<close>, memory \<open>m\<close> and stores \<open>w\<close>; it returns the
  memory, the stores and the final \<^verbatim>\<open>dst\<close>.
\<close>

fun localecase_loop ::
  "nat \<Rightarrow> nat \<Rightarrow> byte list \<Rightarrow> (nat \<Rightarrow> byte) \<Rightarrow> nat list \<Rightarrow> (nat \<Rightarrow> byte) \<times> nat list \<times> nat" where
  "localecase_loop ldst dst [] m w = (m, w, dst)"
| "localecase_loop ldst dst (s # src) m w =
     (if s = 0 then (m, w, dst)
      else let m' = m(dst := lower_char s); w' = w @ [dst]; dst' = dst + 1
           in if dst' = ldst then (m', w', dst' - 1)
              else localecase_loop ldst dst' src m' w')"

definition localecase :: "(nat \<Rightarrow> byte) \<Rightarrow> nat \<Rightarrow> byte list \<Rightarrow> (nat \<Rightarrow> byte) \<times> nat list" where
  "localecase m len src =
     (let ldst = 0 + len in
      case localecase_loop ldst 0 src m [] of
        (m', w, dst) \<Rightarrow> (m'(dst := 0), w @ [dst]))"

text \<open>The C string held by a list of bytes: the bytes before the first zero.\<close>

definition c_string :: "byte list \<Rightarrow> byte list" where
  "c_string src = takeWhile (\<lambda>c. c \<noteq> 0) src"

text \<open>How many bytes the loop copies when started at \<open>dst\<close>.\<close>

definition copied :: "nat \<Rightarrow> nat \<Rightarrow> byte list \<Rightarrow> nat" where
  "copied ldst dst src =
     (if dst < ldst then min (length (c_string src)) (ldst - dst) else length (c_string src))"

subsection \<open>The device table and the process state\<close>

text \<open>
  Modelled from the spec: the type of \<^verbatim>\<open>usbdevice.status\<close> is declared in a
  header that is not part of \<^verbatim>\<open>main.c\<close>.  The device state machine of the
  specification has the three states \<^verbatim>\<open>EMPTY\<close>, \<^verbatim>\<open>CONNECTING\<close> and \<^verbatim>\<open>CONNECTED\<close>;
  \<^verbatim>\<open>main.c\<close> names the last two \<^verbatim>\<open>DEV_STATUS_CONNECTING\<close> and
  \<^verbatim>\<open>DEV_STATUS_CONNECTED\<close>.  The table is zero-initialized and a fresh slot is
  unused, so \<^verbatim>\<open>EMPTY\<close> is the value of a zeroed slot.
\<close>

datatype dev_status = DEV_STATUS_EMPTY | DEV_STATUS_CONNECTING | DEV_STATUS_CONNECTED

text \<open>The fields of \<^verbatim>\<open>usbdevice\<close> that \<^verbatim>\<open>main.c\<close> reads or writes.\<close>

record usbdevice =
  status :: dev_status
  vendor :: "16 word"
  product :: "16 word"

definition zero_usbdevice :: usbdevice where
  "zero_usbdevice = \<lparr>status = DEV_STATUS_EMPTY, vendor = 0, product = 0\<rparr>"

text \<open>Signal numbers of \<^verbatim>\<open><signal.h>\<close> on Linux.\<close>

definition SIGINT :: int where "SIGINT = 2"
definition SIGQUIT :: int where "SIGQUIT = 3"
definition SIGUSR2 :: int where "SIGUSR2 = 12"
definition SIGTERM :: int where "SIGTERM = 15"

definition termination_signal :: "int \<Rightarrow> bool" where
  "termination_signal sg \<longleftrightarrow> sg = SIGTERM \<or> sg = SIGINT \<or> sg = SIGQUIT"

text \<open>
  What can be installed for a signal: the default disposition, or one of the
  three handler functions of \<^verbatim>\<open>main.c\<close> that are passed to \<^verbatim>\<open>signal\<close> and
  \<^verbatim>\<open>sigaction\<close>.
\<close>

datatype handler = SIG_DFL | H_sighandler | H_ignore_signal | H_nullhandler

datatype exit_status = Exited int | Killed int

text \<open>
  Everything the daemon does that is visible outside \<^verbatim>\<open>main.c\<close>, in the order
  in which it happens: stores to \<^verbatim>\<open>reset_stop\<close>, calls into the other files of
  the daemon, output, and the end of the process.  Of a format string the text
  of its first line is recorded, without line breaks; \<^verbatim>\<open>ckb_info\<close> and
  \<^verbatim>\<open>ckb_info_nofile\<close> (and likewise for \<^verbatim>\<open>warn\<close> and \<^verbatim>\<open>fatal\<close>) are not told apart.
\<close>

datatype event =
    Store_reset_stop int
  | Mutex_lock nat
  | Mutex_unlock nat
  | Revertusb nat
  | Closeusb nat
  | Mkdevpath nat int
  | Rmdevpath nat
  | Usbkill
  | Usbmain_call
  | Printf string
  | Printf_int string int
  | Ckb_info string
  | Ckb_warn string
  | Ckb_fatal string
  | Safe_write string
  | Signal_call int handler
  | Sigaction_call int handler
  | Socketpair_call int
  | Exit_call int

text \<open>
  The device table \<^verbatim>\<open>keyboard\<close> is a global array of \<^verbatim>\<open>DEV_MAX\<close> slots that is never
  indexed out of range: it is a function from slot indices to devices, of which
  the indices below \<^verbatim>\<open>DEV_MAX\<close> are the array.

  The globals that \<^verbatim>\<open>main.c\<close> reads and writes, \<^verbatim>\<open>main\<close>'s local \<^verbatim>\<open>forceroot\<close>,
  the installed signal handlers, the integers written to
  \<^verbatim>\<open>sighandler_pipe[SIGHANDLER_SENDER]\<close> and not yet read, whether the root
  controller's device node exists, the events so far, and the exit status once
  the process has ended.
\<close>

record daemon =
  reset_stop :: int
  keyboard :: "nat \<Rightarrow> usbdevice"
  handlers :: "int \<Rightarrow> handler"
  sighandler_pipe :: "int list"
  features_mask :: "32 word"
  enable_experimental :: int
  gid :: "32 word"
  ignored_devices :: "(16 word \<times> 16 word) list"
  forceroot :: int
  root_node :: bool
  trace :: "event list"
  exited :: "exit_status option"

text \<open>
  What \<^verbatim>\<open>main.c\<close> takes from elsewhere: the macros \<^verbatim>\<open>DEV_MAX\<close>, \<^verbatim>\<open>FEAT_BIND\<close> and
  \<^verbatim>\<open>FEAT_NOTIFY\<close>; the functions of other files of the daemon, which get a
  pointer into the device table and so may change the table (\<open>revertusb e i kb\<close>
  is the table after \<^verbatim>\<open>revertusb(keyboard + i)\<close>); and the results of the system
  and library calls made at startup.

  Modelled from the spec: \<^verbatim>\<open>usbmain\<close> is not part of \<^verbatim>\<open>main.c\<close>.  It runs the USB
  subsystem, which drives the device table, and it holds the reader that drains
  the signal channel and invokes \<^verbatim>\<open>exithandler\<close> with the signal number read.
  So \<^verbatim>\<open>usbmain\<close> either returns a result code to \<^verbatim>\<open>main\<close> or ends in a call of
  \<^verbatim>\<open>exithandler\<close>, which does not return.
\<close>

datatype usb_outcome = Usb_returned int | Usb_signal int

record extern =
  DEV_MAX :: nat
  FEAT_BIND :: "32 word"
  FEAT_NOTIFY :: "32 word"
  revertusb :: "nat \<Rightarrow> (nat \<Rightarrow> usbdevice) \<Rightarrow> (nat \<Rightarrow> usbdevice)"
  closeusb :: "nat \<Rightarrow> (nat \<Rightarrow> usbdevice) \<Rightarrow> (nat \<Rightarrow> usbdevice)"
  usbmain :: "(nat \<Rightarrow> usbdevice) \<Rightarrow> usb_outcome \<times> (nat \<Rightarrow> usbdevice)"
  is_pid_running :: int
  getuid :: int
  mkdevpath :: int
  socketpair :: int
  init_cond_monotonic :: int
  sscanf_gid :: "string \<Rightarrow> 32 word option"
  sscanf_ignore :: "string \<Rightarrow> (16 word \<times> 16 word) option"
  sscanf_search :: "string \<Rightarrow> int \<times> 16 word \<times> 16 word \<times> nat"
  patchkeys :: "16 word \<Rightarrow> 16 word \<Rightarrow> string option list"
  strcasecmp :: "string \<Rightarrow> string \<Rightarrow> int"

definition emit :: "event \<Rightarrow> daemon \<Rightarrow> daemon" where
  "emit ev s = s\<lparr>trace := trace s @ [ev]\<rparr>"

definition exit_call :: "int \<Rightarrow> daemon \<Rightarrow> daemon" where
  "exit_call code s = emit (Exit_call code) (s\<lparr>exited := Some (Exited code)\<rparr>)"

subsection \<open>\<^verbatim>\<open>quit\<close> (lines 32--54)\<close>

definition set_reset_stop :: "daemon \<Rightarrow> daemon" where
  "set_reset_stop s = emit (Store_reset_stop 1) (s\<lparr>reset_stop := 1\<rparr>)"

text \<open>The test of lines 38 and 46.\<close>

definition active :: "usbdevice \<Rightarrow> bool" where
  "active kb \<longleftrightarrow> status kb = DEV_STATUS_CONNECTING \<or> status kb = DEV_STATUS_CONNECTED"

text \<open>The body of the first loop, lines 37--40, and of the second, lines 45--48.\<close>

definition revert_slot :: "extern \<Rightarrow> nat \<Rightarrow> daemon \<Rightarrow> daemon" where
  "revert_slot e i s =
     (let s1 = emit (Mutex_lock i) s;
          s2 = (if active (keyboard s1 i)
                then emit (Revertusb i) (s1\<lparr>keyboard := revertusb e i (keyboard s1)\<rparr>)
                else s1)
      in emit (Mutex_unlock i) s2)"

definition close_slot :: "extern \<Rightarrow> nat \<Rightarrow> daemon \<Rightarrow> daemon" where
  "close_slot e i s =
     (let s1 = emit (Mutex_lock i) s;
          s2 = (if active (keyboard s1 i)
                then emit (Closeusb i) (s1\<lparr>keyboard := closeusb e i (keyboard s1)\<rparr>)
                else s1)
      in emit (Mutex_unlock i) s2)"

text \<open>
  Modelled from the spec: \<^verbatim>\<open>rmdevpath\<close> is the device node exposer's removal
  operation; \<^verbatim>\<open>rmdevpath(keyboard)\<close> removes the node of slot 0, the root
  controller.
\<close>

definition rmdevpath_root :: "daemon \<Rightarrow> daemon" where
  "rmdevpath_root s = emit (Rmdevpath 0) (s\<lparr>root_node := False\<rparr>)"

definition quit :: "extern \<Rightarrow> daemon \<Rightarrow> daemon" where
  "quit e s =
     (let s1 = set_reset_stop s;
          s2 = fold (revert_slot e) [1..<DEV_MAX e] s1;
          s3 = fold (close_slot e) [1..<DEV_MAX e] s2;
          s4 = emit (Ckb_info ''Closing root controller'') s3;
          s5 = rmdevpath_root s4
      in emit Usbkill s5)"

text \<open>The state in which line 51 is reached: both loops are done.\<close>

definition quit_passes :: "extern \<Rightarrow> daemon \<Rightarrow> daemon" where
  "quit_passes e s =
     fold (close_slot e) [1..<DEV_MAX e] (fold (revert_slot e) [1..<DEV_MAX e] (set_reset_stop s))"

text \<open>The events of a pass are locks, unlocks and its own operation, on its slots.\<close>

definition revert_events :: "nat list \<Rightarrow> event set" where
  "revert_events slots = Mutex_lock ` set slots \<union> Revertusb ` set slots \<union> Mutex_unlock ` set slots"

definition close_events :: "nat list \<Rightarrow> event set" where
  "close_events slots = Mutex_lock ` set slots \<union> Closeusb ` set slots \<union> Mutex_unlock ` set slots"

subsection \<open>The signal handlers (lines 56--121)\<close>

definition safe_write :: "string \<Rightarrow> daemon \<Rightarrow> daemon" where
  "safe_write str s = emit (Safe_write str) s"

definition signal_name :: "int \<Rightarrow> string" where
  "signal_name type =
     (if type = SIGTERM then ''SIGTERM''
      else if type = SIGINT then ''SIGINT''
      else if type = SIGQUIT then ''SIGQUIT''
      else ''UNKNOWN'')"

definition ignore_signal :: "int \<Rightarrow> daemon \<Rightarrow> daemon" where
  "ignore_signal type s =
     safe_write '' (already shutting down)''
       (safe_write (signal_name type)
         (safe_write ''[W] Ignoring signal '' s))"

definition signal_call :: "int \<Rightarrow> handler \<Rightarrow> daemon \<Rightarrow> daemon" where
  "signal_call sg h s = emit (Signal_call sg h) (s\<lparr>handlers := (handlers s)(sg := h)\<rparr>)"

definition exithandler :: "extern \<Rightarrow> int \<Rightarrow> daemon \<Rightarrow> daemon" where
  "exithandler e type s =
     (let s1 = signal_call SIGTERM H_ignore_signal s;
          s2 = signal_call SIGINT H_ignore_signal s1;
          s3 = signal_call SIGQUIT H_ignore_signal s2;
          s4 = emit (Printf_int ''[I] Caught signal %d'' type) s3;
          s5 = quit e s4
      in exit_call 0 s5)"

definition sighandler :: "int \<Rightarrow> daemon \<Rightarrow> daemon" where
  "sighandler type s = s\<lparr>sighandler_pipe := sighandler_pipe s @ [type]\<rparr>"

definition nullhandler :: "int \<Rightarrow> daemon \<Rightarrow> daemon" where
  "nullhandler sg s = safe_write ''[I] Caught internal signal SIGUSR2'' s"

text \<open>
  The delivery of a signal to the running process: the installed handler runs.
  The default disposition of the three termination signals ends the process.
  Nothing is delivered to a process that has ended.
\<close>

definition deliver :: "int \<Rightarrow> daemon \<Rightarrow> daemon" where
  "deliver sg s =
     (if exited s \<noteq> None then s
      else case handlers s sg of
             SIG_DFL \<Rightarrow> s\<lparr>exited := Some (Killed sg)\<rparr>
           | H_sighandler \<Rightarrow> sighandler sg s
           | H_ignore_signal \<Rightarrow> ignore_signal sg s
           | H_nullhandler \<Rightarrow> nullhandler sg s)"

subsection \<open>Signals that arrive while the main thread runs\<close>

text \<open>
  The statements of \<^verbatim>\<open>quit\<close> and of \<^verbatim>\<open>exithandler\<close>, one state transformer per
  statement (per iteration for the two loops), in program order.
\<close>

definition quit_ops :: "extern \<Rightarrow> (daemon \<Rightarrow> daemon) list" where
  "quit_ops e =
     [set_reset_stop] @
     map (revert_slot e) [1..<DEV_MAX e] @
     map (close_slot e) [1..<DEV_MAX e] @
     [emit (Ckb_info ''Closing root controller''), rmdevpath_root, emit Usbkill]"

definition exithandler_ops :: "extern \<Rightarrow> int \<Rightarrow> (daemon \<Rightarrow> daemon) list" where
  "exithandler_ops e type =
     [signal_call SIGTERM H_ignore_signal,
      signal_call SIGINT H_ignore_signal,
      signal_call SIGQUIT H_ignore_signal,
      emit (Printf_int ''[I] Caught signal %d'' type)] @
     quit_ops e @
     [exit_call 0]"

primrec run_ops :: "(daemon \<Rightarrow> daemon) list \<Rightarrow> daemon \<Rightarrow> daemon" where
  "run_ops [] s = s"
| "run_ops (op # ops) s = run_ops ops (op s)"

text \<open>
  \<open>run_async ops sch s\<close> runs the statements \<open>ops\<close> while signals arrive: the
  \<open>k\<close>-th element of the schedule \<open>sch\<close> lists the signals delivered just before
  the \<open>k\<close>-th statement.  A process that has ended runs no further statement.
\<close>

fun run_async :: "(daemon \<Rightarrow> daemon) list \<Rightarrow> int list list \<Rightarrow> daemon \<Rightarrow> daemon" where
  "run_async [] sch s = s"
| "run_async (op # ops) sch s =
     (let s1 = fold deliver (case sch of [] \<Rightarrow> [] | sigs # _ \<Rightarrow> sigs) s
      in if exited s1 \<noteq> None then s1 else run_async ops (tl sch) (op s1))"

text \<open>The events that a run of \<open>f\<close> from \<open>s\<close> adds to the trace.\<close>

definition run_events :: "(daemon \<Rightarrow> daemon) \<Rightarrow> daemon \<Rightarrow> event list" where
  "run_events f s = drop (length (trace s)) (trace (f s))"

text \<open>The events of signal handlers, and the events of the main thread in a trace.\<close>

fun is_async :: "event \<Rightarrow> bool" where
  "is_async (Safe_write str) = True"
| "is_async ev = False"

definition main_thread :: "event list \<Rightarrow> event list" where
  "main_thread tr = filter (\<lambda>ev. \<not> is_async ev) tr"

text \<open>
  Each run of \<^verbatim>\<open>quit\<close> starts with its one store to \<^verbatim>\<open>reset_stop\<close>, and nothing
  else stores there: the stores in a trace count the runs of the shutdown
  sequence.
\<close>

definition shutdown_runs :: "event list \<Rightarrow> nat" where
  "shutdown_runs tr = length (filter (\<lambda>ev. ev = Store_reset_stop 1) tr)"

text \<open>What \<^verbatim>\<open>ignore_signal\<close> writes for a signal.\<close>

definition warning :: "int \<Rightarrow> event list" where
  "warning sg =
     [Safe_write ''[W] Ignoring signal '', Safe_write (signal_name sg),
      Safe_write '' (already shutting down)'']"

text \<open>
  Two states agree on the main thread when they differ at most in what signal
  handlers do: the queue of the channel and the handlers' output in the trace.
\<close>

definition agree :: "daemon \<Rightarrow> daemon \<Rightarrow> bool" where
  "agree s t \<longleftrightarrow>
     reset_stop s = reset_stop t \<and> keyboard s = keyboard t \<and> handlers s = handlers t \<and>
     root_node s = root_node t \<and> exited s = exited t \<and>
     main_thread (trace s) = main_thread (trace t)"

text \<open>
  A termination signal ends the process while its disposition is the default
  one; \<open>armed\<close> says that none of the three is, \<open>swapped\<close> that all three are
  handled by \<^verbatim>\<open>ignore_signal\<close>.
\<close>

definition armed :: "daemon \<Rightarrow> bool" where
  "armed s \<longleftrightarrow>
     handlers s SIGTERM \<noteq> SIG_DFL \<and> handlers s SIGINT \<noteq> SIG_DFL \<and> handlers s SIGQUIT \<noteq> SIG_DFL"

definition swapped :: "daemon \<Rightarrow> bool" where
  "swapped s \<longleftrightarrow>
     handlers s SIGTERM = H_ignore_signal \<and> handlers s SIGINT = H_ignore_signal \<and>
     handlers s SIGQUIT = H_ignore_signal"

text \<open>
  Statements that do not end the process and act alike on states that agree;
  and statements that moreover leave the handlers, the channel and the
  handlers' output alone.
\<close>

definition calm :: "(daemon \<Rightarrow> daemon) \<Rightarrow> bool" where
  "calm op \<longleftrightarrow>
     (\<forall>s. exited (op s) = exited s) \<and>
     (\<forall>s t. agree s t \<longrightarrow> agree (op s) (op t)) \<and>
     (\<forall>s. armed s \<longrightarrow> armed (op s))"

definition quiet :: "(daemon \<Rightarrow> daemon) \<Rightarrow> bool" where
  "quiet op \<longleftrightarrow>
     (\<forall>s. exited (op s) = exited s \<and> handlers (op s) = handlers s \<and>
          sighandler_pipe (op s) = sighandler_pipe s \<and>
          filter is_async (trace (op s)) = filter is_async (trace s))"

text \<open>
  The state of \<^verbatim>\<open>exithandler\<close> after its three calls of \<^verbatim>\<open>signal\<close>, lines
  96--98, with signals arriving as the schedule says.
\<close>

definition swap_done :: "extern \<Rightarrow> int \<Rightarrow> int list list \<Rightarrow> daemon \<Rightarrow> daemon" where
  "swap_done e type sch s = run_async (take 3 (exithandler_ops e type)) sch s"

subsection \<open>\<^verbatim>\<open>main\<close> (lines 140--315)\<close>

text \<open>
  The first loop, lines 146--179, over \<^verbatim>\<open>argv[1]\<close>, ...: the output of the first
  \<^verbatim>\<open>--help\<close> or \<^verbatim>\<open>--version\<close>, after which \<^verbatim>\<open>main\<close> returns 0.
\<close>

fun main_help :: "string list \<Rightarrow> event option" where
  "main_help [] = None"
| "main_help (a # as) =
     (if a = ''--help'' then Some (Printf ''Usage: ckb-next-daemon [--version] [--gid=<gid>] [--nonotify] [--nobind] [--nonroot]'')
      else if a = ''--version'' then Some (Printf ''ckb-next-daemon %s'')
      else main_help as)"

text \<open>Lines 220--226: the pair goes to the first entry of the list that is free.\<close>

fun ignore_add :: "16 word \<Rightarrow> 16 word \<Rightarrow> (16 word \<times> 16 word) list \<Rightarrow> (16 word \<times> 16 word) list" where
  "ignore_add vid pid [] = []"
| "ignore_add vid pid ((v, p) # rest) =
     (if v \<noteq> 0 \<or> p \<noteq> 0 then (v, p) # ignore_add vid pid rest else (vid, pid) # rest)"

text \<open>
  Lines 241--257: the search through the patched keymap, a list of key names
  in which \<open>None\<close> is a \<^verbatim>\<open>NULL\<close> name; \<open>j\<close> is the index of the head.
\<close>

fun search_keymap :: "extern \<Rightarrow> string \<Rightarrow> string option list \<Rightarrow> int \<Rightarrow> daemon \<Rightarrow> daemon" where
  "search_keymap e searchstr [] j s =
     exit_call 1 (emit (Printf ''Key %s was not found'') s)"
| "search_keymap e searchstr (None # keymap) j s =
     (if searchstr \<noteq> [] then search_keymap e searchstr keymap (j + 1) s
      else exit_call 0 (emit (Printf_int ''First NULL key has id %d'' j) s))"
| "search_keymap e searchstr (Some name # keymap) j s =
     (if strcasecmp e searchstr name = 0
      then exit_call 0 (emit (Printf_int ''Key %s has id %d'' j) s)
      else search_keymap e searchstr keymap (j + 1) s)"

text \<open>
  Lines 227--257.  \<open>sscanf_search e str\<close> is the result of
  \<^verbatim>\<open>sscanf(str, "%hx:%hx%n", ...)\<close> on the zeroed device: the value returned,
  \<^verbatim>\<open>dev.vendor\<close>, \<^verbatim>\<open>dev.product\<close> and \<^verbatim>\<open>count\<close> afterwards; \<open>patchkeys e v p\<close> are
  the names in the keymap that \<^verbatim>\<open>patchkeys\<close> leaves in such a device.
\<close>

definition main_search :: "extern \<Rightarrow> string \<Rightarrow> daemon \<Rightarrow> daemon" where
  "main_search e searchstr0 s =
     (case sscanf_search e searchstr0 of
        (n, v, p, count) \<Rightarrow>
          let searchstr =
                (if n = 2
                 then (let str = drop count searchstr0 in if str \<noteq> [] then tl str else str)
                 else searchstr0)
          in search_keymap e searchstr (patchkeys e v p) 0 s)"

text \<open>
  One iteration of the second loop, lines 200--270 (the Linux build, and not a
  release build: the \<^verbatim>\<open>#ifdef\<close> parts are absent).  \<open>sscanf_gid e a\<close> is \<open>Some g\<close>
  when \<^verbatim>\<open>sscanf(a, "--gid=%u", &newgid)\<close> returns 1 and stores \<open>g\<close>; likewise
  \<open>sscanf_ignore\<close> for \<^verbatim>\<open>"--ignore=%hx:%hx"\<close> returning 2.
\<close>

definition main_param :: "extern \<Rightarrow> string \<Rightarrow> daemon \<Rightarrow> daemon" where
  "main_param e argument s =
     (case sscanf_gid e argument of
        Some newgid \<Rightarrow> emit (Ckb_info ''Setting /dev node gid: %u'') (s\<lparr>gid := newgid\<rparr>)
      | None \<Rightarrow>
        if argument = ''--nobind''
        then emit (Ckb_info ''Key binding and key notifications are disabled'')
               (s\<lparr>features_mask := features_mask s AND (NOT (FEAT_BIND e) AND NOT (FEAT_NOTIFY e))\<rparr>)
        else if argument = ''--nonotify''
        then emit (Ckb_info ''Key notifications are disabled'')
               (s\<lparr>features_mask := features_mask s AND NOT (FEAT_NOTIFY e)\<rparr>)
        else if argument = ''--nonroot''
        then s\<lparr>forceroot := 0\<rparr>
        else (case sscanf_ignore e argument of
                Some (vid, pid) \<Rightarrow>
                  s\<lparr>ignored_devices := ignore_add vid pid (ignored_devices s)\<rparr>
              | None \<Rightarrow>
                if take 9 argument = ''--search=''
                then main_search e (drop 9 argument) s
                else if argument = ''--enable-experimental''
                then s\<lparr>enable_experimental := 1\<rparr>
                else s))"

text \<open>The second loop; \<^verbatim>\<open>--search\<close> returns from \<^verbatim>\<open>main\<close> in the middle of it.\<close>

fun main_params :: "extern \<Rightarrow> string list \<Rightarrow> daemon \<Rightarrow> daemon" where
  "main_params e [] s = s"
| "main_params e (argument # rest) s =
     (let s' = main_param e argument s
      in if exited s' \<noteq> None then s' else main_params e rest s')"

text \<open>
  Lines 141--280: the command line, the PID check and the UID check.  A
  \<^verbatim>\<open>return\<close> from \<^verbatim>\<open>main\<close> ends the process as \<^verbatim>\<open>exit\<close> does.
\<close>

definition main_args :: "extern \<Rightarrow> string list \<Rightarrow> daemon \<Rightarrow> daemon" where
  "main_args e argv s0 =
     (case main_help (tl argv) of
        Some usage \<Rightarrow> exit_call 0 (emit usage s0)
      | None \<Rightarrow>
        let s1 = emit (Printf ''ckb-next-daemon %s'') s0
        in if is_pid_running e \<noteq> 0
           then exit_call 1
                  (emit (Ckb_fatal ''(If you're certain the process is dead, delete %s and try again.)'')
                    (emit (Ckb_fatal ''Try `systemctl stop ckb-next-daemon` or `killall ckb-next-daemon`.'')
                      (emit (Ckb_fatal ''ckb-next-daemon is already running (PID %ld).'') s1)))
           else let s2 = main_params e (tl argv) (s1\<lparr>forceroot := 1\<rparr>)
                in if exited s2 \<noteq> None then s2
                   else if getuid e \<noteq> 0
                   then (if forceroot s2 \<noteq> 0
                         then exit_call 0
                                (emit (Ckb_fatal ''ckb-next-daemon must be run as root. Try `sudo %s`'') s2)
                         else emit (Ckb_warn ''Warning: not running as root, allowing anyway per command-line parameter...'') s2)
                   else s2)"

text \<open>
  Modelled from the spec: \<^verbatim>\<open>mkdevpath\<close> is the device node exposer's creation
  operation; \<^verbatim>\<open>mkdevpath(keyboard)\<close> creates the node of the root controller
  and returns 0 when it has done so.
\<close>

definition mkdevpath_root :: "extern \<Rightarrow> daemon \<Rightarrow> daemon" where
  "mkdevpath_root e s =
     (let s1 = emit (Mkdevpath 0 (mkdevpath e)) s
      in if mkdevpath e = 0
         then emit (Ckb_info ''Root controller ready at %s0'') (s1\<lparr>root_node := True\<rparr>)
         else s1)"

text \<open>
  Lines 282--310: the root controller, the signal handlers and the clock.
  \<^verbatim>\<open>umask\<close> and \<^verbatim>\<open>srand\<close> touch nothing of the state and are left out, as is
  \<^verbatim>\<open>setlinebuf\<close> above.
\<close>

definition main_setup :: "extern \<Rightarrow> daemon \<Rightarrow> daemon" where
  "main_setup e s =
     (let s1 = s\<lparr>keyboard := (\<lambda>i. zero_usbdevice)\<rparr>;
          s2 = mkdevpath_root e s1;
          s3 = emit (Socketpair_call (socketpair e)) s2;
          s4 = (if socketpair e \<noteq> - 1
                then signal_call SIGQUIT H_sighandler
                       (signal_call SIGINT H_sighandler
                         (signal_call SIGTERM H_sighandler s3))
                else emit (Ckb_warn ''Unable to setup signal handlers'') s3);
          s5 = emit (Sigaction_call SIGUSR2 H_nullhandler)
                 (s4\<lparr>handlers := (handlers s4)(SIGUSR2 := H_nullhandler)\<rparr>)
      in if init_cond_monotonic e \<noteq> 0
         then exit_call 1 (emit (Ckb_fatal ''Failed to initialize monotonic clock.'') s5)
         else s5)"

text \<open>The events of lines 282--310, in order.\<close>

definition setup_events :: "extern \<Rightarrow> event list" where
  "setup_events e =
     Mkdevpath 0 (mkdevpath e) #
     (if mkdevpath e = 0 then [Ckb_info ''Root controller ready at %s0''] else []) @
     Socketpair_call (socketpair e) #
     (if socketpair e \<noteq> - 1
      then [Signal_call SIGTERM H_sighandler, Signal_call SIGINT H_sighandler,
            Signal_call SIGQUIT H_sighandler]
      else [Ckb_warn ''Unable to setup signal handlers'']) @
     Sigaction_call SIGUSR2 H_nullhandler #
     (if init_cond_monotonic e \<noteq> 0
      then [Ckb_fatal ''Failed to initialize monotonic clock.'', Exit_call 1] else [])"

text \<open>Lines 312--315, and \<^verbatim>\<open>main\<close> as a whole, started in the state \<open>s0\<close>.\<close>

definition main_run :: "extern \<Rightarrow> daemon \<Rightarrow> daemon" where
  "main_run e s =
     (case usbmain e (keyboard s) of
        (Usb_returned result, kb) \<Rightarrow>
          exit_call result (quit e ((emit Usbmain_call s)\<lparr>keyboard := kb\<rparr>))
      | (Usb_signal type, kb) \<Rightarrow>
          exithandler e type ((emit Usbmain_call s)\<lparr>keyboard := kb\<rparr>))"

definition main_startup :: "extern \<Rightarrow> string list \<Rightarrow> daemon \<Rightarrow> daemon" where
  "main_startup e argv s0 =
     (let s1 = main_args e argv s0
      in if exited s1 \<noteq> None then s1 else main_setup e s1)"

definition main :: "extern \<Rightarrow> string list \<Rightarrow> daemon \<Rightarrow> daemon" where
  "main e argv s0 =
     (let s2 = main_startup e argv s0
      in if exited s2 \<noteq> None then s2 else main_run e s2)"

text \<open>The exit code that goes with an outcome of \<^verbatim>\<open>usbmain\<close>.\<close>

fun usb_exit_code :: "usb_outcome \<Rightarrow> int" where
  "usb_exit_code (Usb_returned result) = result"
| "usb_exit_code (Usb_signal type) = 0"

text \<open>
  What the command line and the two checks of lines 141--280 can do: they
  print, they end the process, and they set \<^verbatim>\<open>gid\<close>, \<^verbatim>\<open>features_mask\<close>,
  \<^verbatim>\<open>forceroot\<close>, \<^verbatim>\<open>ignored_devices\<close> and \<^verbatim>\<open>enable_experimental\<close>.
\<close>

fun log_event :: "event \<Rightarrow> bool" where
  "log_event (Printf str) = True"
| "log_event (Printf_int str n) = True"
| "log_event (Ckb_info str) = True"
| "log_event (Ckb_warn str) = True"
| "log_event (Ckb_fatal str) = True"
| "log_event (Exit_call code) = True"
| "log_event ev = False"

definition args_frame :: "daemon \<Rightarrow> daemon \<Rightarrow> bool" where
  "args_frame s s' \<longleftrightarrow>
     reset_stop s' = reset_stop s \<and> keyboard s' = keyboard s \<and> handlers s' = handlers s \<and>
     sighandler_pipe s' = sighandler_pipe s \<and> root_node s' = root_node s \<and>
     (\<exists>evs. trace s' = trace s @ evs \<and> list_all log_event evs)"

subsection \<open>What the specification says of \<^verbatim>\<open>closeusb\<close> and \<^verbatim>\<open>revertusb\<close>\<close>

text \<open>
  Modelled from the spec: \<^verbatim>\<open>closeusb\<close> and \<^verbatim>\<open>revertusb\<close> are defined in another
  file of the daemon.  The close operation closes the USB handle of the slot
  and releases its device node, "transitioning the slot to \<^verbatim>\<open>EMPTY\<close>"; the
  revert operation is a command to the hardware of the slot, after which pass 2
  finds the slot "still" connecting or connected.  Neither touches the status
  of another slot.
\<close>

definition closeusb_spec :: "extern \<Rightarrow> bool" where
  "closeusb_spec e \<longleftrightarrow>
     (\<forall>i kb j. status (closeusb e i kb j) = (if j = i then DEV_STATUS_EMPTY else status (kb j)))"

definition revertusb_spec :: "extern \<Rightarrow> bool" where
  "revertusb_spec e \<longleftrightarrow> (\<forall>i kb j. status (revertusb e i kb j) = status (kb j))"

subsection \<open>A concrete daemon\<close>

text \<open>
  A table of three slots, a \<^verbatim>\<open>revertusb\<close> that leaves the table alone, a
  \<^verbatim>\<open>closeusb\<close> that zeroes the slot, and a USB subsystem that connects two
  devices and then returns 7.
\<close>

definition demo_table :: "nat \<Rightarrow> usbdevice" where
  "demo_table =
     (\<lambda>i. zero_usbdevice)
       (1 := \<lparr>status = DEV_STATUS_CONNECTED, vendor = 0x1b1c, product = 0x1b2d\<rparr>,
        2 := \<lparr>status = DEV_STATUS_CONNECTING, vendor = 0x1b1c, product = 0x1b3d\<rparr>)"

definition demo_extern :: extern where
  "demo_extern =
     \<lparr>DEV_MAX = 3, FEAT_BIND = 0x10, FEAT_NOTIFY = 0x20,
      revertusb = (\<lambda>i kb. kb),
      closeusb = (\<lambda>i kb. kb(i := zero_usbdevice)),
      usbmain = (\<lambda>kb. (Usb_returned 7, demo_table)),
      is_pid_running = 0, getuid = 0, mkdevpath = 0, socketpair = 0,
      init_cond_monotonic = 0,
      sscanf_gid = (\<lambda>a. None), sscanf_ignore = (\<lambda>a. None),
      sscanf_search = (\<lambda>a. (0, 0, 0, 0)), patchkeys = (\<lambda>v p. []),
      strcasecmp = (\<lambda>a b. if a = b then 0 else 1)\<rparr>"

definition boot :: daemon where
  "boot =
     \<lparr>reset_stop = 0, keyboard = (\<lambda>i. zero_usbdevice), handlers = (\<lambda>sg. SIG_DFL), sighandler_pipe = [],
      features_mask = 0x30, enable_experimental = 0, gid = 0,
      ignored_devices = replicate 3 (0, 0), forceroot = 0, root_node = False,
      trace = [], exited = None\<rparr>"

definition demo_daemon :: daemon where
  "demo_daemon = boot\<lparr>keyboard := demo_table, root_node := True,
     handlers := (\<lambda>sg. if termination_signal sg then H_sighandler else SIG_DFL)\<rparr>"

text \<open>Signals for the first six statements of \<^verbatim>\<open>exithandler\<close>.\<close>

definition demo_schedule :: "int list list" where
  "demo_schedule = [[SIGINT], [], [], [SIGQUIT], [], [SIGTERM, SIGINT]]"

section \<open>Properties\<close>

subsection \<open>\<^verbatim>\<open>timespec_add\<close>\<close>

lemma smod_bounds:
  "- 1000000000 < (a::int) smod 1000000000 \<and> a smod 1000000000 < 1000000000"
  using smod_int_range [of 1000000000 a] by auto

lemma smod_nonneg: "0 \<le> (a::int) \<Longrightarrow> 0 \<le> a smod 1000000000"
  by (simp add: signed_modulo_int_def sgn_if)

lemma sint_sum:
  assumes "in_int64 (sint (a::64 word) + sint (b::64 word))"
  shows "sint (a + b) = sint a + sint b"
  using assms by (simp add: sint_word_add in_int64_def signed_take_bit_int_eq_self)

lemma sint_of_int64:
  assumes "in_int64 k"
  shows "sint (word_of_int k :: 64 word) = k"
  using assms by (simp add: sint_sbintrunc' in_int64_def signed_take_bit_int_eq_self)

lemma in_int64_smod: "in_int64 (a smod 1000000000)"
  using smod_bounds [of a] by (simp add: in_int64_def)

lemma in_int64_sdiv: "in_int64 a \<Longrightarrow> in_int64 (a sdiv 1000000000)"
  by (simp add: in_int64_def signed_divide_int_def sgn_if) arith

lemma timespec_add_sec:
  assumes "timespec_add_no_overflow t n"
  shows "sint (tv_sec (timespec_add t n)) =
         sint (tv_sec t) + (sint n + sint (tv_nsec t)) sdiv 1000000000"
proof -
  let ?k = "sint n + sint (tv_nsec t)"
  from assms have a: "in_int64 ?k" and b: "in_int64 (sint (tv_sec t) + ?k sdiv 1000000000)"
    by (simp_all add: timespec_add_no_overflow_def)
  have q: "sint (word_of_int (?k sdiv 1000000000) :: 64 word) = ?k sdiv 1000000000"
    by (rule sint_of_int64) (rule in_int64_sdiv [OF a])
  have "sint (tv_sec t + word_of_int (?k sdiv 1000000000)) = sint (tv_sec t) + ?k sdiv 1000000000"
    using b q by (simp add: sint_sum)
  then show ?thesis
    using a by (simp add: timespec_add_def Let_def sint_sum)
qed

lemma timespec_add_nsec:
  assumes "timespec_add_no_overflow t n"
  shows "sint (tv_nsec (timespec_add t n)) = (sint n + sint (tv_nsec t)) smod 1000000000"
proof -
  from assms have a: "in_int64 (sint n + sint (tv_nsec t))"
    by (simp add: timespec_add_no_overflow_def)
  show ?thesis
    using a by (simp add: timespec_add_def Let_def sint_sum sint_of_int64 in_int64_smod)
qed

lemma timespec_add_instant:
  assumes "timespec_add_no_overflow t n"
  shows "instant (timespec_add t n) = instant t + sint n"
proof -
  let ?k = "sint n + sint (tv_nsec t)"
  have "?k sdiv 1000000000 * 1000000000 + ?k smod 1000000000 = ?k"
    by (rule sdiv_mult_smod_eq)
  then show ?thesis
    by (simp add: instant_def timespec_add_sec [OF assms] timespec_add_nsec [OF assms]
        algebra_simps)
qed

text \<open>
  Claim C9.  Whenever neither addition of \<^verbatim>\<open>timespec_add\<close> overflows, the
  instant \<open>tv_sec * 10^9 + tv_nsec\<close> afterwards is the old instant plus
  \<open>n\<close>; if moreover \<open>0 \<le> tv_nsec < 10^9\<close> held before and \<open>n \<ge> 0\<close>, then
  \<open>0 \<le> tv_nsec < 10^9\<close> holds afterwards.  For a negative \<open>n\<close> the result
  can have a negative \<open>tv_nsec\<close>: adding \<open>-1\<close> to the normalized timespec
  \<open>(0, 0)\<close> gives \<open>tv_nsec = -1\<close>.
\<close>

theorem timespec_add_correct:
  "(\<forall>t n. timespec_add_no_overflow t n \<longrightarrow>
      instant (timespec_add t n) = instant t + sint n \<and>
      (0 \<le> sint (tv_nsec t) \<and> sint (tv_nsec t) < 1000000000 \<and> 0 \<le> sint n \<longrightarrow>
         0 \<le> sint (tv_nsec (timespec_add t n)) \<and>
         sint (tv_nsec (timespec_add t n)) < 1000000000))
   \<and> (\<exists>t n. timespec_add_no_overflow t n \<and>
         0 \<le> sint (tv_nsec t) \<and> sint (tv_nsec t) < 1000000000 \<and>
         sint (tv_nsec (timespec_add t n)) < 0)"
proof (intro conjI allI impI)
  fix t n assume h: "timespec_add_no_overflow t n"
  show "instant (timespec_add t n) = instant t + sint n"
    by (rule timespec_add_instant [OF h])
  assume r: "0 \<le> sint (tv_nsec t) \<and> sint (tv_nsec t) < 1000000000 \<and> 0 \<le> sint n"
  then have "0 \<le> sint n + sint (tv_nsec t)" by simp
  then show "0 \<le> sint (tv_nsec (timespec_add t n))"
    by (simp add: timespec_add_nsec [OF h] smod_nonneg)
  show "sint (tv_nsec (timespec_add t n)) < 1000000000"
    using smod_bounds by (simp add: timespec_add_nsec [OF h])
next
  have "timespec_add_no_overflow \<lparr>tv_sec = 0, tv_nsec = 0\<rparr> (-1)"
    by (simp add: timespec_add_no_overflow_def in_int64_def signed_divide_int_def)
  moreover have "sint (tv_nsec (timespec_add \<lparr>tv_sec = 0, tv_nsec = 0\<rparr> (-1))) < 0"
    by (simp add: timespec_add_def signed_modulo_int_def)
  ultimately show "\<exists>t n. timespec_add_no_overflow t n \<and>
      0 \<le> sint (tv_nsec t) \<and> sint (tv_nsec t) < 1000000000 \<and>
      sint (tv_nsec (timespec_add t n)) < 0"
    by (intro exI [of _ "\<lparr>tv_sec = 0, tv_nsec = 0\<rparr>"] exI [of _ "-1"]) simp
qed

text \<open>
  The theorem at \<open>(5 s, 999999999 ns) + 2 ns\<close>: no overflow, the instant
  moves by 2, and the result is the normalized \<open>(6 s, 1 ns)\<close>.
\<close>

theorem timespec_add_correct_witness:
  "timespec_add_no_overflow \<lparr>tv_sec = 5, tv_nsec = 999999999\<rparr> 2 \<and>
   instant (timespec_add \<lparr>tv_sec = 5, tv_nsec = 999999999\<rparr> 2) = 6000000001 \<and>
   0 \<le> sint (tv_nsec (timespec_add \<lparr>tv_sec = 5, tv_nsec = 999999999\<rparr> 2)) \<and>
   sint (tv_nsec (timespec_add \<lparr>tv_sec = 5, tv_nsec = 999999999\<rparr> 2)) < 1000000000 \<and>
   timespec_add \<lparr>tv_sec = 5, tv_nsec = 999999999\<rparr> 2 = \<lparr>tv_sec = 6, tv_nsec = 1\<rparr>"
proof -
  let ?t = "\<lparr>tv_sec = 5, tv_nsec = 999999999\<rparr>"
  have h: "timespec_add_no_overflow ?t 2"
    by (simp add: timespec_add_no_overflow_def in_int64_def signed_divide_int_def)
  have r: "0 \<le> sint (tv_nsec ?t) \<and> sint (tv_nsec ?t) < 1000000000 \<and> 0 \<le> sint (2 :: 64 word)"
    by simp
  have i: "instant ?t + sint (2 :: 64 word) = 6000000001"
    by (simp add: instant_def)
  have v: "timespec_add ?t 2 = \<lparr>tv_sec = 6, tv_nsec = 1\<rparr>"
    by (simp add: timespec_add_def signed_divide_int_def signed_modulo_int_def)
  from timespec_add_correct have
    "timespec_add_no_overflow ?t 2 \<longrightarrow>
      instant (timespec_add ?t 2) = instant ?t + sint (2 :: 64 word) \<and>
      (0 \<le> sint (tv_nsec ?t) \<and> sint (tv_nsec ?t) < 1000000000 \<and> 0 \<le> sint (2 :: 64 word) \<longrightarrow>
         0 \<le> sint (tv_nsec (timespec_add ?t 2)) \<and>
         sint (tv_nsec (timespec_add ?t 2)) < 1000000000)"
    by blast
  with h r i v show ?thesis by simp
qed

subsection \<open>\<^verbatim>\<open>localecase\<close>\<close>

lemma tolower_nz: "s \<noteq> 0 \<Longrightarrow> tolower s \<noteq> 0"
  unfolding tolower_def
  by (auto simp: word_le_nat_alt unat_word_ariths unat_eq_zero [symmetric]
      simp del: unat_eq_zero)

lemma lower_char_nz: "s \<noteq> 0 \<Longrightarrow> lower_char s \<noteq> 0"
  by (simp add: lower_char_def tolower_nz)

lemma c_string_Cons: "s \<noteq> 0 \<Longrightarrow> c_string (s # src) = s # c_string src"
  by (simp add: c_string_def)

lemma copied_step:
  assumes "s \<noteq> 0" and "dst + 1 \<noteq> ldst"
  shows "copied ldst dst (s # src) = Suc (copied ldst (Suc dst) src)"
  using assms by (auto simp: copied_def c_string_def)

text \<open>The three components of the loop's result, by induction on the source.\<close>

lemma loop_written:
  "fst (snd (localecase_loop ldst dst src m w)) = w @ [dst ..< dst + copied ldst dst src]"
proof (induction src arbitrary: dst m w)
  case Nil
  then show ?case by (simp add: copied_def c_string_def)
next
  case (Cons s src)
  show ?case
  proof (cases "s = 0")
    case True
    then show ?thesis by (simp add: copied_def c_string_def)
  next
    case False
    show ?thesis
    proof (cases "dst + 1 = ldst")
      case True
      with False show ?thesis
        by (auto simp add: copied_def c_string_def Let_def upt_rec [of dst])
    next
      case ne: False
      with False show ?thesis
        by (simp add: Let_def Cons.IH upt_rec [of dst] copied_step)
    qed
  qed
qed

lemma loop_dst:
  "snd (snd (localecase_loop ldst dst src m w)) =
     (if dst < ldst \<and> ldst - dst \<le> length (c_string src) then ldst - 1
      else dst + length (c_string src))"
proof (induction src arbitrary: dst m w)
  case Nil
  then show ?case by (simp add: c_string_def)
next
  case (Cons s src)
  show ?case
  proof (cases "s = 0")
    case True
    then show ?thesis by (simp add: c_string_def)
  next
    case False
    then show ?thesis
      by (cases "dst + 1 = ldst") (auto simp add: Let_def Cons.IH c_string_def)
  qed
qed

lemma loop_mem:
  "fst (localecase_loop ldst dst src m w) i =
     (if dst \<le> i \<and> i < dst + copied ldst dst src
      then lower_char (c_string src ! (i - dst)) else m i)"
proof (induction src arbitrary: dst m w)
  case Nil
  then show ?case by (auto simp add: copied_def c_string_def)
next
  case (Cons s src)
  show ?case
  proof (cases "s = 0")
    case True
    then show ?thesis by (auto simp add: copied_def c_string_def)
  next
    case False
    show ?thesis
    proof (cases "dst + 1 = ldst")
      case True
      with False show ?thesis by (auto simp add: copied_def c_string_def Let_def)
    next
      case ne: False
      note c = copied_step [OF False ne] and cs = c_string_Cons [OF False]
      show ?thesis
      proof (cases "i = dst")
        case True
        have "fst (localecase_loop ldst (Suc dst) src (m(dst := lower_char s)) (w @ [dst])) i
              = lower_char s"
          unfolding Cons.IH using True by simp
        with False ne True show ?thesis by (simp add: Let_def c cs)
      next
        case idst: False
        with False ne show ?thesis
          by (auto simp add: Let_def Cons.IH c cs nth_Cons')
      qed
    qed
  qed
qed

lemma localecase_written:
  "snd (localecase m len src) =
     [0 ..< copied len 0 src] @
     [if 0 < len \<and> len \<le> length (c_string src) then len - 1 else length (c_string src)]"
proof -
  obtain m' w dst where r: "localecase_loop len 0 src m [] = (m', w, dst)"
    by (cases "localecase_loop len 0 src m []") auto
  have w: "w = [0 ..< copied len 0 src]"
    using loop_written [of len 0 src m "[]"] r by simp
  have d: "dst = (if 0 < len \<and> len \<le> length (c_string src) then len - 1
                  else length (c_string src))"
    using loop_dst [of len 0 src m "[]"] r by simp
  show ?thesis
    using w d by (simp add: localecase_def r)
qed

lemma localecase_mem:
  assumes "1 \<le> len"
  shows "fst (localecase m len src) i =
     (if i = min (length (c_string src)) (len - 1) then 0
      else if i < min (length (c_string src)) (len - 1) then lower_char (c_string src ! i)
      else m i)"
proof -
  obtain m' w dst where r: "localecase_loop len 0 src m [] = (m', w, dst)"
    by (cases "localecase_loop len 0 src m []") auto
  have d: "dst = min (length (c_string src)) (len - 1)"
    using loop_dst [of len 0 src m "[]"] r assms by auto
  have m': "m' i = (if i < copied len 0 src then lower_char (c_string src ! i) else m i)"
    using loop_mem [of len 0 src m "[]" i] r by simp
  have c: "copied len 0 src = min (length (c_string src)) len"
    using assms by (simp add: copied_def)
  show ?thesis
    using d m' c assms by (auto simp add: localecase_def r)
qed

lemma c_string_nz: "b \<in> set (c_string src) \<Longrightarrow> b \<noteq> 0"
  unfolding c_string_def by (auto dest: set_takeWhileD)

lemma c_string_stop:
  assumes "\<forall>b\<in>set xs. b \<noteq> 0"
  shows "c_string (xs @ 0 # ys) = xs"
  using assms unfolding c_string_def by (simp add: takeWhile_append2)

lemma localecase_string:
  assumes "1 \<le> len"
  shows "c_string (map (fst (localecase m len src)) [0..<len]) =
         take (len - 1) (map lower_char (c_string src))"
proof -
  let ?str = "c_string src"
  let ?k = "min (length ?str) (len - 1)"
  let ?r = "fst (localecase m len src)"
  have k: "?k < len" using assms by simp
  then have split: "[0..<len] = [0..<?k] @ ?k # [Suc ?k..<len]"
    by (metis (no_types, lifting) le0 le_add_diff_inverse less_imp_le_nat upt_add_eq_append
        upt_conv_Cons)
  have pre: "map ?r [0..<?k] = take (len - 1) (map lower_char ?str)"
  proof (rule nth_equalityI)
    show "length (map ?r [0..<?k]) = length (take (len - 1) (map lower_char ?str))" by simp
  next
    fix i assume "i < length (map ?r [0..<?k])"
    then have i: "i < ?k" by simp
    then show "map ?r [0..<?k] ! i = take (len - 1) (map lower_char ?str) ! i"
      using assms by (auto simp add: localecase_mem)
  qed
  have z: "?r ?k = 0" using assms by (simp add: localecase_mem)
  have nz: "\<forall>b\<in>set (take (len - 1) (map lower_char ?str)). b \<noteq> 0"
    using lower_char_nz c_string_nz by (fastforce dest!: in_set_takeD)
  have "map ?r [0..<len] = map ?r ([0..<?k] @ ?k # [Suc ?k..<len])"
    using split by simp
  also have "\<dots> = take (len - 1) (map lower_char ?str) @ 0 # map ?r [Suc ?k..<len]"
    using pre z by simp
  finally show ?thesis
    using c_string_stop [OF nz] by simp
qed

text \<open>
  Claim C10.  For \<open>len \<ge> 1\<close>, \<^verbatim>\<open>localecase(dst, len, src)\<close> stores only at
  offsets below \<open>len\<close>, leaves a zero byte among the first \<open>len\<close> bytes of
  \<^verbatim>\<open>dst\<close>, and the C string then held by those bytes is the source string with
  every \<^verbatim>\<open>'_'\<close> replaced by \<^verbatim>\<open>'-'\<close> and every other character lowercased, cut
  to \<open>len - 1\<close> characters (so a source of at most \<open>len - 1\<close> characters is
  transformed in full); the memory from offset \<open>len\<close> on is unchanged.  For
  \<open>len = 0\<close> nothing stops the loop: it stores the whole transformed source and
  the terminator, offsets \<open>0\<close> to \<open>strlen(src)\<close>, at least one byte, all of
  them beyond the empty buffer.
\<close>

theorem localecase_correct:
  "(1 \<le> len \<longrightarrow>
      (\<forall>off\<in>set (snd (localecase m len src)). off < len) \<and>
      (\<exists>k<len. fst (localecase m len src) k = 0) \<and>
      c_string (map (fst (localecase m len src)) [0..<len]) =
        take (len - 1) (map lower_char (c_string src)) \<and>
      (length (c_string src) \<le> len - 1 \<longrightarrow>
        c_string (map (fst (localecase m len src)) [0..<len]) = map lower_char (c_string src)) \<and>
      (\<forall>i. len \<le> i \<longrightarrow> fst (localecase m len src) i = m i))
   \<and> set (snd (localecase m 0 src)) = {0..length (c_string src)}"
proof (intro conjI impI)
  assume len: "1 \<le> len"
  show "\<forall>off\<in>set (snd (localecase m len src)). off < len"
    using len by (auto simp: localecase_written copied_def)
  show "\<exists>k<len. fst (localecase m len src) k = 0"
    using len
    by (intro exI [of _ "min (length (c_string src)) (len - 1)"]) (simp add: localecase_mem)
  show s: "c_string (map (fst (localecase m len src)) [0..<len]) =
        take (len - 1) (map lower_char (c_string src))"
    by (rule localecase_string [OF len])
  show "\<forall>i. len \<le> i \<longrightarrow> fst (localecase m len src) i = m i"
    using len by (auto simp: localecase_mem)
  assume "length (c_string src) \<le> len - 1"
  then show "c_string (map (fst (localecase m len src)) [0..<len]) =
      map lower_char (c_string src)"
    by (simp add: s)
next
  show "set (snd (localecase m 0 src)) = {0..length (c_string src)}"
    by (auto simp: localecase_written copied_def)
qed

text \<open>
  The theorem at \<^verbatim>\<open>localecase(dst, 4, "En_US")\<close> on a buffer filled with \<^verbatim>\<open>'#'\<close>:
  the stores are at offsets 0, 1, 2, 3 and 3 again, and the buffer holds
  \<^verbatim>\<open>"en-"\<close>; and at \<^verbatim>\<open>localecase(dst, 6, "En_US")\<close>, where the source fits.
\<close>

theorem localecase_correct_witness:
  "(1::nat) \<le> 4 \<and>
   snd (localecase (\<lambda>_. 0x23) 4 (bytes_of ''En_US'')) = [0, 1, 2, 3, 3] \<and>
   c_string (map (fst (localecase (\<lambda>_. 0x23) 4 (bytes_of ''En_US''))) [0..<4]) = bytes_of ''en-'' \<and>
   c_string (map (fst (localecase (\<lambda>_. 0x23) 6 (bytes_of ''En_US''))) [0..<6]) = bytes_of ''en-us''"
proof -
  let ?m = "\<lambda>_::nat. 0x23 :: byte"
  let ?src = "bytes_of ''En_US''"
  have w: "snd (localecase ?m 4 ?src) = [0, 1, 2, 3, 3]"
    by (simp add: localecase_def tolower_def lower_char_def bytes_of_def)
  have t: "take (4 - 1) (map lower_char (c_string ?src)) = bytes_of ''en-''"
    by (simp add: c_string_def tolower_def lower_char_def bytes_of_def)
  have f: "take (6 - 1) (map lower_char (c_string ?src)) = bytes_of ''en-us''"
    by (simp add: c_string_def tolower_def lower_char_def bytes_of_def)
  have h4: "(1::nat) \<le> 4" and h6: "(1::nat) \<le> 6" by simp_all
  from localecase_correct [of 4 ?m ?src] h4
  have b: "c_string (map (fst (localecase ?m 4 ?src)) [0..<4]) =
            take (4 - 1) (map lower_char (c_string ?src))"
    by blast
  from localecase_correct [of 6 ?m ?src] h6
  have c: "c_string (map (fst (localecase ?m 6 ?src)) [0..<6]) =
           take (6 - 1) (map lower_char (c_string ?src))"
    by blast
  show ?thesis
    using h4 w b c unfolding t f by (intro conjI)
qed

subsection \<open>The fields after each statement\<close>

lemma emit_fields [simp]:
  "trace (emit ev s) = trace s @ [ev]"
  "keyboard (emit ev s) = keyboard s"
  "reset_stop (emit ev s) = reset_stop s"
  "handlers (emit ev s) = handlers s"
  "sighandler_pipe (emit ev s) = sighandler_pipe s"
  "root_node (emit ev s) = root_node s"
  "exited (emit ev s) = exited s"
  by (simp_all add: emit_def)

lemma set_reset_stop_fields [simp]:
  "trace (set_reset_stop s) = trace s @ [Store_reset_stop 1]"
  "keyboard (set_reset_stop s) = keyboard s"
  "reset_stop (set_reset_stop s) = 1"
  "handlers (set_reset_stop s) = handlers s"
  "sighandler_pipe (set_reset_stop s) = sighandler_pipe s"
  "root_node (set_reset_stop s) = root_node s"
  "exited (set_reset_stop s) = exited s"
  by (simp_all add: set_reset_stop_def)

lemma rmdevpath_root_fields [simp]:
  "trace (rmdevpath_root s) = trace s @ [Rmdevpath 0]"
  "keyboard (rmdevpath_root s) = keyboard s"
  "reset_stop (rmdevpath_root s) = reset_stop s"
  "handlers (rmdevpath_root s) = handlers s"
  "sighandler_pipe (rmdevpath_root s) = sighandler_pipe s"
  "root_node (rmdevpath_root s) = False"
  "exited (rmdevpath_root s) = exited s"
  by (simp_all add: rmdevpath_root_def)

lemma exit_call_fields [simp]:
  "trace (exit_call code s) = trace s @ [Exit_call code]"
  "keyboard (exit_call code s) = keyboard s"
  "reset_stop (exit_call code s) = reset_stop s"
  "handlers (exit_call code s) = handlers s"
  "sighandler_pipe (exit_call code s) = sighandler_pipe s"
  "root_node (exit_call code s) = root_node s"
  "exited (exit_call code s) = Some (Exited code)"
  by (simp_all add: exit_call_def)

lemma signal_call_fields [simp]:
  "trace (signal_call sg h s) = trace s @ [Signal_call sg h]"
  "keyboard (signal_call sg h s) = keyboard s"
  "reset_stop (signal_call sg h s) = reset_stop s"
  "handlers (signal_call sg h s) = (handlers s)(sg := h)"
  "sighandler_pipe (signal_call sg h s) = sighandler_pipe s"
  "root_node (signal_call sg h s) = root_node s"
  "exited (signal_call sg h s) = exited s"
  by (simp_all add: signal_call_def)

text \<open>The events of one visit of a slot.\<close>

lemma revert_slot_fields [simp]:
  "trace (revert_slot e i s) =
     trace s @ Mutex_lock i # (if active (keyboard s i) then [Revertusb i] else []) @ [Mutex_unlock i]"
  "keyboard (revert_slot e i s) =
     (if active (keyboard s i) then revertusb e i (keyboard s) else keyboard s)"
  "reset_stop (revert_slot e i s) = reset_stop s"
  "handlers (revert_slot e i s) = handlers s"
  "sighandler_pipe (revert_slot e i s) = sighandler_pipe s"
  "root_node (revert_slot e i s) = root_node s"
  "exited (revert_slot e i s) = exited s"
  by (simp_all add: revert_slot_def Let_def)

lemma close_slot_fields [simp]:
  "trace (close_slot e i s) =
     trace s @ Mutex_lock i # (if active (keyboard s i) then [Closeusb i] else []) @ [Mutex_unlock i]"
  "keyboard (close_slot e i s) =
     (if active (keyboard s i) then closeusb e i (keyboard s) else keyboard s)"
  "reset_stop (close_slot e i s) = reset_stop s"
  "handlers (close_slot e i s) = handlers s"
  "sighandler_pipe (close_slot e i s) = sighandler_pipe s"
  "root_node (close_slot e i s) = root_node s"
  "exited (close_slot e i s) = exited s"
  by (simp_all add: close_slot_def Let_def)

text \<open>The two passes: fields that no visit touches.\<close>

lemma fold_revert_fields [simp]:
  "reset_stop (fold (revert_slot e) slots s) = reset_stop s"
  "handlers (fold (revert_slot e) slots s) = handlers s"
  "sighandler_pipe (fold (revert_slot e) slots s) = sighandler_pipe s"
  "root_node (fold (revert_slot e) slots s) = root_node s"
  "exited (fold (revert_slot e) slots s) = exited s"
  by (induction slots arbitrary: s; simp)+

lemma fold_close_fields [simp]:
  "reset_stop (fold (close_slot e) slots s) = reset_stop s"
  "handlers (fold (close_slot e) slots s) = handlers s"
  "sighandler_pipe (fold (close_slot e) slots s) = sighandler_pipe s"
  "root_node (fold (close_slot e) slots s) = root_node s"
  "exited (fold (close_slot e) slots s) = exited s"
  by (induction slots arbitrary: s; simp)+

lemma fold_revert_trace:
  "\<exists>evs. trace (fold (revert_slot e) slots s) = trace s @ evs \<and> set evs \<subseteq> revert_events slots"
proof (induction slots arbitrary: s)
  case Nil
  then show ?case by simp
next
  case (Cons i slots)
  obtain evs where evs: "trace (fold (revert_slot e) slots (revert_slot e i s)) =
      trace (revert_slot e i s) @ evs" "set evs \<subseteq> revert_events slots"
    using Cons.IH by blast
  let ?new = "Mutex_lock i # (if active (keyboard s i) then [Revertusb i] else []) @ [Mutex_unlock i]"
  have "trace (fold (revert_slot e) (i # slots) s) = trace s @ (?new @ evs)"
    using evs(1) by simp
  moreover have "set (?new @ evs) \<subseteq> revert_events (i # slots)"
    using evs(2) by (auto simp: revert_events_def)
  ultimately show ?case by blast
qed

lemma fold_close_trace:
  "\<exists>evs. trace (fold (close_slot e) slots s) = trace s @ evs \<and> set evs \<subseteq> close_events slots"
proof (induction slots arbitrary: s)
  case Nil
  then show ?case by simp
next
  case (Cons i slots)
  obtain evs where evs: "trace (fold (close_slot e) slots (close_slot e i s)) =
      trace (close_slot e i s) @ evs" "set evs \<subseteq> close_events slots"
    using Cons.IH by blast
  let ?new = "Mutex_lock i # (if active (keyboard s i) then [Closeusb i] else []) @ [Mutex_unlock i]"
  have "trace (fold (close_slot e) (i # slots) s) = trace s @ (?new @ evs)"
    using evs(1) by simp
  moreover have "set (?new @ evs) \<subseteq> close_events (i # slots)"
    using evs(2) by (auto simp: close_events_def)
  ultimately show ?case by blast
qed

text \<open>The shape of a run of \<^verbatim>\<open>quit\<close>.\<close>

lemma quit_by_passes:
  "quit e s = emit Usbkill (rmdevpath_root (emit (Ckb_info ''Closing root controller'') (quit_passes e s)))"
  by (simp add: quit_def quit_passes_def Let_def)

lemma quit_passes_trace:
  "\<exists>evs1 evs2. trace (quit_passes e s) = trace s @ Store_reset_stop 1 # evs1 @ evs2 \<and>
      set evs1 \<subseteq> revert_events [1..<DEV_MAX e] \<and> set evs2 \<subseteq> close_events [1..<DEV_MAX e]"
proof -
  let ?s1 = "set_reset_stop s"
  let ?s2 = "fold (revert_slot e) [1..<DEV_MAX e] ?s1"
  obtain evs1 where 1: "trace ?s2 = trace ?s1 @ evs1" "set evs1 \<subseteq> revert_events [1..<DEV_MAX e]"
    using fold_revert_trace by blast
  obtain evs2 where 2: "trace (fold (close_slot e) [1..<DEV_MAX e] ?s2) = trace ?s2 @ evs2"
      "set evs2 \<subseteq> close_events [1..<DEV_MAX e]"
    using fold_close_trace by blast
  have "trace (quit_passes e s) = trace s @ Store_reset_stop 1 # evs1 @ evs2"
    using 1(1) 2(1) by (simp add: quit_passes_def)
  with 1(2) 2(2) show ?thesis by blast
qed

lemma quit_events:
  "\<exists>evs1 evs2. run_events (quit e) s =
        Store_reset_stop 1 # evs1 @ evs2 @
        [Ckb_info ''Closing root controller'', Rmdevpath 0, Usbkill] \<and>
      set evs1 \<subseteq> revert_events [1..<DEV_MAX e] \<and> set evs2 \<subseteq> close_events [1..<DEV_MAX e]"
proof -
  obtain evs1 evs2 where t: "trace (quit_passes e s) = trace s @ Store_reset_stop 1 # evs1 @ evs2"
    and s: "set evs1 \<subseteq> revert_events [1..<DEV_MAX e]" "set evs2 \<subseteq> close_events [1..<DEV_MAX e]"
    using quit_passes_trace by blast
  have "run_events (quit e) s =
      Store_reset_stop 1 # evs1 @ evs2 @ [Ckb_info ''Closing root controller'', Rmdevpath 0, Usbkill]"
    by (simp add: run_events_def quit_by_passes t)
  with s show ?thesis by blast
qed

lemma quit_fields [simp]:
  "reset_stop (quit e s) = 1"
  "handlers (quit e s) = handlers s"
  "sighandler_pipe (quit e s) = sighandler_pipe s"
  "root_node (quit e s) = False"
  "exited (quit e s) = exited s"
  by (simp_all add: quit_def Let_def)

lemma trace_quit: "trace (quit e s) = trace s @ run_events (quit e) s"
proof -
  obtain evs1 evs2 where "trace (quit_passes e s) = trace s @ Store_reset_stop 1 # evs1 @ evs2"
    using quit_passes_trace by blast
  then show ?thesis by (simp add: run_events_def quit_by_passes)
qed

text \<open>Positions in a list of two parts.\<close>

lemma nth_split_order:
  assumes "p < length (A @ B)" and "q < length (A @ B)"
    and "P ((A @ B) ! p)" and "Q ((A @ B) ! q)"
    and "\<forall>x\<in>set B. \<not> P x" and "\<forall>x\<in>set A. \<not> Q x"
  shows "p < q"
proof -
  have "p < length A"
  proof (rule ccontr)
    assume "\<not> p < length A"
    then have "(A @ B) ! p = B ! (p - length A)" "p - length A < length B"
      using assms(1) by (auto simp: nth_append)
    then have "(A @ B) ! p \<in> set B" by simp
    with assms(3,5) show False by blast
  qed
  moreover have "length A \<le> q"
  proof (rule ccontr)
    assume "\<not> length A \<le> q"
    then have "(A @ B) ! q = A ! q" "q < length A" by (auto simp: nth_append)
    then have "(A @ B) ! q \<in> set A" by simp
    with assms(4,6) show False by blast
  qed
  ultimately show ?thesis by simp
qed

subsection \<open>The order of the two passes\<close>

text \<open>
  Claim C1.  In a run of \<^verbatim>\<open>quit\<close>, every revert is issued before every close:
  whenever the \<open>p\<close>-th event of the run is \<^verbatim>\<open>revertusb\<close> on a slot \<open>a\<close> and
  the \<open>q\<close>-th is \<^verbatim>\<open>closeusb\<close> on a slot \<open>b\<close>, then \<open>p < q\<close>, for all slots
  \<open>a\<close> and \<open>b\<close>, which both lie in \<open>1..DEV_MAX-1\<close>.  So no close is issued
  while a revert of the run is still to come.
\<close>

theorem quit_reverts_before_closes:
  assumes "p < length (run_events (quit e) s)" and "q < length (run_events (quit e) s)"
    and "run_events (quit e) s ! p = Revertusb a"
    and "run_events (quit e) s ! q = Closeusb b"
  shows "p < q \<and> 1 \<le> a \<and> a < DEV_MAX e \<and> 1 \<le> b \<and> b < DEV_MAX e"
proof -
  obtain evs1 evs2 where ev: "run_events (quit e) s =
        Store_reset_stop 1 # evs1 @ evs2 @
        [Ckb_info ''Closing root controller'', Rmdevpath 0, Usbkill]"
    and s1: "set evs1 \<subseteq> revert_events [1..<DEV_MAX e]"
    and s2: "set evs2 \<subseteq> close_events [1..<DEV_MAX e]"
    using quit_events by blast
  let ?A = "Store_reset_stop 1 # evs1"
  let ?B = "evs2 @ [Ckb_info ''Closing root controller'', Rmdevpath 0, Usbkill]"
  have split: "run_events (quit e) s = ?A @ ?B" using ev by simp
  have noP: "\<forall>x\<in>set ?B. \<not> (\<exists>i. x = Revertusb i)"
    using s2 by (auto simp: close_events_def)
  have noQ: "\<forall>x\<in>set ?A. \<not> (\<exists>i. x = Closeusb i)"
    using s1 by (auto simp: revert_events_def)
  have "p < q"
    by (rule nth_split_order [where A = ?A and B = ?B
          and P = "\<lambda>x. \<exists>i. x = Revertusb i" and Q = "\<lambda>x. \<exists>i. x = Closeusb i"])
       (use assms split noP noQ in auto)
  moreover have "Revertusb a \<in> set (run_events (quit e) s)"
    using assms(1,3) nth_mem by metis
  then have "Revertusb a \<in> set evs1"
    using s2 unfolding ev by (auto simp: close_events_def)
  then have "1 \<le> a \<and> a < DEV_MAX e"
    using s1 by (auto simp: revert_events_def)
  moreover have "Closeusb b \<in> set (run_events (quit e) s)"
    using assms(2,4) nth_mem by metis
  then have "Closeusb b \<in> set evs2"
    using s1 unfolding ev by (auto simp: revert_events_def)
  then have "1 \<le> b \<and> b < DEV_MAX e"
    using s2 by (auto simp: close_events_def)
  ultimately show ?thesis by simp
qed

text \<open>
  The theorem on the concrete table: slot 1 connected, slot 2 connecting.  The
  revert of slot 2 is event 5 of the run and the close of slot 1 is event 8.
\<close>

lemma demo_quit_events:
  "run_events (quit demo_extern) demo_daemon =
     [Store_reset_stop 1,
      Mutex_lock 1, Revertusb 1, Mutex_unlock 1, Mutex_lock 2, Revertusb 2, Mutex_unlock 2,
      Mutex_lock 1, Closeusb 1, Mutex_unlock 1, Mutex_lock 2, Closeusb 2, Mutex_unlock 2,
      Ckb_info ''Closing root controller'', Rmdevpath 0, Usbkill]"
  by (simp add: run_events_def quit_def Let_def demo_extern_def demo_daemon_def boot_def
      demo_table_def active_def zero_usbdevice_def upt_rec)

theorem quit_reverts_before_closes_witness:
  "5 < length (run_events (quit demo_extern) demo_daemon) \<and>
   8 < length (run_events (quit demo_extern) demo_daemon) \<and>
   run_events (quit demo_extern) demo_daemon ! 5 = Revertusb 2 \<and>
   run_events (quit demo_extern) demo_daemon ! 8 = Closeusb 1 \<and>
   (5::nat) < 8 \<and> 2 < DEV_MAX demo_extern \<and> 1 < DEV_MAX demo_extern"
proof -
  have p: "5 < length (run_events (quit demo_extern) demo_daemon)"
    and q: "8 < length (run_events (quit demo_extern) demo_daemon)"
    and r: "run_events (quit demo_extern) demo_daemon ! 5 = Revertusb 2"
    and c: "run_events (quit demo_extern) demo_daemon ! 8 = Closeusb 1"
    by (simp_all add: demo_quit_events)
  from quit_reverts_before_closes [OF p q r c] p q r c show ?thesis by simp
qed

subsection \<open>The passes under the specification of \<^verbatim>\<open>revertusb\<close> and \<^verbatim>\<open>closeusb\<close>\<close>

lemma trace_fold_revert:
  "trace (fold (revert_slot e) slots s) = trace s @ run_events (fold (revert_slot e) slots) s"
  using fold_revert_trace [of e slots s] by (auto simp: run_events_def)

lemma trace_fold_close:
  "trace (fold (close_slot e) slots s) = trace s @ run_events (fold (close_slot e) slots) s"
  using fold_close_trace [of e slots s] by (auto simp: run_events_def)

lemma run_eventsI: "trace (f s) = trace s @ evs \<Longrightarrow> run_events f s = evs"
  by (simp add: run_events_def)

lemma run_events_id [simp]: "run_events id s = []" "run_events (\<lambda>a. a) s = []"
  by (simp_all add: run_events_def)

lemma run_events_fold_revert_Cons:
  "run_events (fold (revert_slot e) (i # slots)) s =
     Mutex_lock i # (if active (keyboard s i) then [Revertusb i] else []) @ [Mutex_unlock i] @
     run_events (fold (revert_slot e) slots) (revert_slot e i s)"
proof (rule run_eventsI)
  show "trace (fold (revert_slot e) (i # slots) s) =
      trace s @ Mutex_lock i # (if active (keyboard s i) then [Revertusb i] else []) @
        [Mutex_unlock i] @ run_events (fold (revert_slot e) slots) (revert_slot e i s)"
    using trace_fold_revert [of e slots "revert_slot e i s"] by simp
qed

lemma run_events_fold_close_Cons:
  "run_events (fold (close_slot e) (i # slots)) s =
     Mutex_lock i # (if active (keyboard s i) then [Closeusb i] else []) @ [Mutex_unlock i] @
     run_events (fold (close_slot e) slots) (close_slot e i s)"
proof (rule run_eventsI)
  show "trace (fold (close_slot e) (i # slots) s) =
      trace s @ Mutex_lock i # (if active (keyboard s i) then [Closeusb i] else []) @
        [Mutex_unlock i] @ run_events (fold (close_slot e) slots) (close_slot e i s)"
    using trace_fold_close [of e slots "close_slot e i s"] by simp
qed

lemma revert_slot_status:
  "revertusb_spec e \<Longrightarrow> status (keyboard (revert_slot e i s) j) = status (keyboard s j)"
  by (simp add: revertusb_spec_def)

lemma close_slot_status:
  "closeusb_spec e \<Longrightarrow>
   status (keyboard (close_slot e i s) j) =
     (if j = i \<and> active (keyboard s i) then DEV_STATUS_EMPTY else status (keyboard s j))"
  by (simp add: closeusb_spec_def)

lemma fold_revert_status:
  "revertusb_spec e \<Longrightarrow> status (keyboard (fold (revert_slot e) slots s) j) = status (keyboard s j)"
  by (induction slots arbitrary: s) (simp_all add: revert_slot_status del: revert_slot_fields)

lemma fold_close_status:
  "closeusb_spec e \<Longrightarrow>
   status (keyboard (fold (close_slot e) slots s) j) =
     (if j \<in> set slots \<and> active (keyboard s j) then DEV_STATUS_EMPTY else status (keyboard s j))"
proof (induction slots arbitrary: s)
  case Nil
  then show ?case by simp
next
  case (Cons i slots)
  show ?case
    using Cons.prems
    by (auto simp add: Cons.IH [OF Cons.prems] close_slot_status active_def
        simp del: close_slot_fields)
qed

lemma fold_revert_issued:
  assumes "revertusb_spec e"
  shows "Revertusb i \<in> set (run_events (fold (revert_slot e) slots) s) \<longleftrightarrow>
         i \<in> set slots \<and> active (keyboard s i)"
proof (induction slots arbitrary: s)
  case Nil
  then show ?case by simp
next
  case (Cons i0 slots)
  have a: "active (keyboard (revert_slot e i0 s) i) = active (keyboard s i)"
    using revert_slot_status [OF assms] by (simp add: active_def del: revert_slot_fields)
  show ?case
    unfolding run_events_fold_revert_Cons
    by (auto simp add: Cons.IH a simp del: revert_slot_fields)
qed

lemma fold_close_issued:
  assumes "closeusb_spec e"
  shows "Closeusb i \<in> set (run_events (fold (close_slot e) slots) s) \<longleftrightarrow>
         i \<in> set slots \<and> active (keyboard s i)"
proof (induction slots arbitrary: s)
  case Nil
  then show ?case by simp
next
  case (Cons i0 slots)
  have a: "active (keyboard (close_slot e i0 s) i) =
      (if i = i0 \<and> active (keyboard s i0) then False else active (keyboard s i))"
    using close_slot_status [OF assms] by (simp add: active_def del: close_slot_fields)
  show ?case
    unfolding run_events_fold_close_Cons
    by (auto simp add: Cons.IH a simp del: close_slot_fields)
qed

lemma no_close_in_revert_pass: "Closeusb i \<notin> set (run_events (fold (revert_slot e) slots) s)"
  using fold_revert_trace [of e slots s] by (auto simp: run_events_def revert_events_def)

lemma no_revert_in_close_pass: "Revertusb i \<notin> set (run_events (fold (close_slot e) slots) s)"
  using fold_close_trace [of e slots s] by (auto simp: run_events_def close_events_def)

lemma no_rmdevpath_in_passes:
  "Rmdevpath a \<notin> set (run_events (fold (revert_slot e) slots) s)"
  "Rmdevpath a \<notin> set (run_events (fold (close_slot e) slots) s)"
  using fold_revert_trace [of e slots s] fold_close_trace [of e slots s]
  by (auto simp: run_events_def revert_events_def close_events_def)

text \<open>The events of the two passes together, and of the run.\<close>

lemma run_events_quit_passes:
  "run_events (quit_passes e) s =
     Store_reset_stop 1 #
     run_events (fold (revert_slot e) [1..<DEV_MAX e]) (set_reset_stop s) @
     run_events (fold (close_slot e) [1..<DEV_MAX e])
       (fold (revert_slot e) [1..<DEV_MAX e] (set_reset_stop s))"
  by (rule run_eventsI) (simp add: quit_passes_def trace_fold_close trace_fold_revert)

lemma trace_quit_passes: "trace (quit_passes e s) = trace s @ run_events (quit_passes e) s"
  using quit_passes_trace [of e s] by (auto simp: run_events_def)

lemma run_events_quit:
  "run_events (quit e) s =
     run_events (quit_passes e) s @ [Ckb_info ''Closing root controller'', Rmdevpath 0, Usbkill]"
  by (rule run_eventsI) (simp add: quit_by_passes trace_quit_passes)

subsection \<open>Slots that are empty\<close>

text \<open>
  Claim C7.  When a pass visits a slot whose status is \<^verbatim>\<open>EMPTY\<close>, it takes and
  releases the lock of the slot and does nothing else: no \<^verbatim>\<open>revertusb\<close>, no
  \<^verbatim>\<open>closeusb\<close>, no output, and the state is as before.  When moreover
  \<^verbatim>\<open>revertusb\<close> and \<^verbatim>\<open>closeusb\<close> leave the status of other slots alone, a slot
  that is \<^verbatim>\<open>EMPTY\<close> when \<^verbatim>\<open>quit\<close> starts is \<^verbatim>\<open>EMPTY\<close> at both visits: the run
  issues neither operation to it, and it is \<^verbatim>\<open>EMPTY\<close> at the end.
\<close>

theorem empty_slot_is_skipped:
  assumes "status (keyboard s i) = DEV_STATUS_EMPTY"
  shows "revert_slot e i s = s\<lparr>trace := trace s @ [Mutex_lock i, Mutex_unlock i]\<rparr> \<and>
         close_slot e i s = s\<lparr>trace := trace s @ [Mutex_lock i, Mutex_unlock i]\<rparr> \<and>
         (revertusb_spec e \<and> closeusb_spec e \<longrightarrow>
            Revertusb i \<notin> set (run_events (quit e) s) \<and>
            Closeusb i \<notin> set (run_events (quit e) s) \<and>
            status (keyboard (quit e s) i) = DEV_STATUS_EMPTY)"
proof (intro conjI impI)
  have na: "\<not> active (keyboard s i)" using assms by (simp add: active_def)
  show "revert_slot e i s = s\<lparr>trace := trace s @ [Mutex_lock i, Mutex_unlock i]\<rparr>"
    using na by (simp add: revert_slot_def emit_def Let_def)
  show "close_slot e i s = s\<lparr>trace := trace s @ [Mutex_lock i, Mutex_unlock i]\<rparr>"
    using na by (simp add: close_slot_def emit_def Let_def)
  assume sp: "revertusb_spec e \<and> closeusb_spec e"
  let ?s1 = "set_reset_stop s"
  let ?s2 = "fold (revert_slot e) [1..<DEV_MAX e] ?s1"
  have na2: "\<not> active (keyboard ?s2 i)"
    using na sp by (simp add: active_def fold_revert_status)
  show "Revertusb i \<notin> set (run_events (quit e) s)"
    using sp na
    by (simp add: run_events_quit run_events_quit_passes fold_revert_issued
        no_revert_in_close_pass)
  show "Closeusb i \<notin> set (run_events (quit e) s)"
    using sp na2
    by (simp add: run_events_quit run_events_quit_passes fold_close_issued
        no_close_in_revert_pass)
  show "status (keyboard (quit e s) i) = DEV_STATUS_EMPTY"
    using sp assms
    by (simp add: quit_by_passes quit_passes_def fold_close_status fold_revert_status)
qed

text \<open>
  The theorem on a table whose slot 1 is connected and whose slot 2 is empty:
  the run of \<^verbatim>\<open>quit\<close> reverts and closes slot 1 and only locks slot 2.
\<close>

theorem empty_slot_is_skipped_witness:
  "status (keyboard (demo_daemon\<lparr>keyboard := (keyboard demo_daemon)(2 := zero_usbdevice)\<rparr>) 2)
     = DEV_STATUS_EMPTY \<and>
   revertusb_spec demo_extern \<and> closeusb_spec demo_extern \<and>
   Revertusb 2 \<notin> set (run_events (quit demo_extern)
      (demo_daemon\<lparr>keyboard := (keyboard demo_daemon)(2 := zero_usbdevice)\<rparr>)) \<and>
   Closeusb 2 \<notin> set (run_events (quit demo_extern)
      (demo_daemon\<lparr>keyboard := (keyboard demo_daemon)(2 := zero_usbdevice)\<rparr>)) \<and>
   run_events (quit demo_extern)
      (demo_daemon\<lparr>keyboard := (keyboard demo_daemon)(2 := zero_usbdevice)\<rparr>) =
     [Store_reset_stop 1,
      Mutex_lock 1, Revertusb 1, Mutex_unlock 1, Mutex_lock 2, Mutex_unlock 2,
      Mutex_lock 1, Closeusb 1, Mutex_unlock 1, Mutex_lock 2, Mutex_unlock 2,
      Ckb_info ''Closing root controller'', Rmdevpath 0, Usbkill]"
proof -
  let ?s = "demo_daemon\<lparr>keyboard := (keyboard demo_daemon)(2 := zero_usbdevice)\<rparr>"
  have h: "status (keyboard ?s 2) = DEV_STATUS_EMPTY"
    by (simp add: zero_usbdevice_def)
  have r: "revertusb_spec demo_extern"
    by (simp add: revertusb_spec_def demo_extern_def)
  have c: "closeusb_spec demo_extern"
    by (simp add: closeusb_spec_def demo_extern_def zero_usbdevice_def)
  have ev: "run_events (quit demo_extern) ?s =
     [Store_reset_stop 1,
      Mutex_lock 1, Revertusb 1, Mutex_unlock 1, Mutex_lock 2, Mutex_unlock 2,
      Mutex_lock 1, Closeusb 1, Mutex_unlock 1, Mutex_lock 2, Mutex_unlock 2,
      Ckb_info ''Closing root controller'', Rmdevpath 0, Usbkill]"
    by (simp add: run_events_def quit_def Let_def demo_extern_def demo_daemon_def boot_def
        demo_table_def active_def zero_usbdevice_def upt_rec)
  from empty_slot_is_skipped [OF h, of demo_extern] r c
  have "Revertusb 2 \<notin> set (run_events (quit demo_extern) ?s)"
    and "Closeusb 2 \<notin> set (run_events (quit demo_extern) ?s)"
    by blast+
  with h r c ev show ?thesis by blast
qed

subsection \<open>The root controller goes last\<close>

text \<open>
  Claim C3.  \<^verbatim>\<open>quit\<close> removes the node of the root controller after both
  passes: the events of the run are those of the two passes, then the log line,
  \<^verbatim>\<open>rmdevpath\<close> on slot 0 and \<^verbatim>\<open>usbkill\<close>; the passes remove no node by
  \<^verbatim>\<open>rmdevpath\<close>, and after the removal of the root node nothing is closed or
  removed any more.  With \<^verbatim>\<open>closeusb\<close> and \<^verbatim>\<open>revertusb\<close> as the specification
  describes them, every slot \<open>1..DEV_MAX-1\<close> is \<^verbatim>\<open>EMPTY\<close> in the state in which
  the root node is removed, and each of them that was connecting or connected
  when \<^verbatim>\<open>quit\<close> started has been reverted and closed before.
\<close>

theorem root_node_removed_last:
  assumes "closeusb_spec e" and "revertusb_spec e"
  shows "quit e s =
           emit Usbkill (rmdevpath_root
             (emit (Ckb_info ''Closing root controller'') (quit_passes e s))) \<and>
         run_events (quit e) s =
           run_events (quit_passes e) s @
           [Ckb_info ''Closing root controller'', Rmdevpath 0, Usbkill] \<and>
         (\<forall>a. Rmdevpath a \<notin> set (run_events (quit_passes e) s)) \<and>
         (\<forall>i. 1 \<le> i \<and> i < DEV_MAX e \<longrightarrow>
            status (keyboard (quit_passes e s) i) = DEV_STATUS_EMPTY \<and>
            (active (keyboard s i) \<longrightarrow>
               Revertusb i \<in> set (run_events (quit_passes e) s) \<and>
               Closeusb i \<in> set (run_events (quit_passes e) s)))"
proof (intro conjI allI impI)
  let ?s1 = "set_reset_stop s"
  let ?s2 = "fold (revert_slot e) [1..<DEV_MAX e] ?s1"
  show "quit e s =
      emit Usbkill (rmdevpath_root (emit (Ckb_info ''Closing root controller'') (quit_passes e s)))"
    by (rule quit_by_passes)
  show "run_events (quit e) s =
      run_events (quit_passes e) s @ [Ckb_info ''Closing root controller'', Rmdevpath 0, Usbkill]"
    by (rule run_events_quit)
  show "Rmdevpath a \<notin> set (run_events (quit_passes e) s)" for a
    by (simp add: run_events_quit_passes no_rmdevpath_in_passes)
  fix i assume i: "1 \<le> i \<and> i < DEV_MAX e"
  have st: "status (keyboard ?s2 i) = status (keyboard s i)"
    using assms(2) by (simp add: fold_revert_status)
  show "status (keyboard (quit_passes e s) i) = DEV_STATUS_EMPTY"
    using assms(1) i st
    by (cases "status (keyboard s i)") (simp_all add: quit_passes_def fold_close_status active_def)
  assume a: "active (keyboard s i)"
  then have a2: "active (keyboard ?s2 i)" using st by (simp add: active_def)
  show "Revertusb i \<in> set (run_events (quit_passes e) s)"
    using assms(2) a i by (simp add: run_events_quit_passes fold_revert_issued)
  show "Closeusb i \<in> set (run_events (quit_passes e) s)"
    using assms(1) a2 i by (simp add: run_events_quit_passes fold_close_issued)
qed

text \<open>
  The theorem on the concrete table: slots 1 and 2 are reverted and closed and
  both \<^verbatim>\<open>EMPTY\<close> when the node of the root controller is removed.
\<close>

lemma demo_specs: "closeusb_spec demo_extern" "revertusb_spec demo_extern"
  by (simp_all add: closeusb_spec_def revertusb_spec_def demo_extern_def zero_usbdevice_def)

theorem root_node_removed_last_witness:
  "closeusb_spec demo_extern \<and> revertusb_spec demo_extern \<and>
   active (keyboard demo_daemon 1) \<and> active (keyboard demo_daemon 2) \<and>
   status (keyboard (quit_passes demo_extern demo_daemon) 1) = DEV_STATUS_EMPTY \<and>
   status (keyboard (quit_passes demo_extern demo_daemon) 2) = DEV_STATUS_EMPTY \<and>
   Revertusb 2 \<in> set (run_events (quit_passes demo_extern) demo_daemon) \<and>
   Closeusb 2 \<in> set (run_events (quit_passes demo_extern) demo_daemon) \<and>
   run_events (quit demo_extern) demo_daemon =
     run_events (quit_passes demo_extern) demo_daemon @
     [Ckb_info ''Closing root controller'', Rmdevpath 0, Usbkill]"
proof -
  have a: "active (keyboard demo_daemon 1)" "active (keyboard demo_daemon 2)"
    by (simp_all add: demo_daemon_def demo_table_def active_def)
  have r: "(1::nat) \<le> 1 \<and> 1 < DEV_MAX demo_extern" "(1::nat) \<le> 2 \<and> 2 < DEV_MAX demo_extern"
    by (simp_all add: demo_extern_def)
  note t = root_node_removed_last [OF demo_specs, of demo_daemon]
  from t r a show ?thesis
    using demo_specs by blast
qed

subsection \<open>The statements of \<^verbatim>\<open>quit\<close> and \<^verbatim>\<open>exithandler\<close> one by one\<close>

lemma run_ops_append: "run_ops (ops @ ops') s = run_ops ops' (run_ops ops s)"
  by (induction ops arbitrary: s) simp_all

lemma run_ops_map: "run_ops (map f xs) s = fold f xs s"
  by (induction xs arbitrary: s) simp_all

lemma quit_run_ops: "quit e s = run_ops (quit_ops e) s"
  by (simp add: quit_def quit_ops_def run_ops_append run_ops_map Let_def)

lemma exithandler_run_ops: "exithandler e type s = run_ops (exithandler_ops e type) s"
  by (simp add: exithandler_def exithandler_ops_def run_ops_append quit_run_ops Let_def)

lemma run_ops_invariant:
  assumes "I s" and "\<And>op s. op \<in> set ops \<Longrightarrow> I s \<Longrightarrow> I (op s)"
  shows "I (run_ops ops s)"
  using assms by (induction ops arbitrary: s) simp_all

lemma handler_fields [simp]:
  "reset_stop (sighandler sg s) = reset_stop s"
  "reset_stop (ignore_signal sg s) = reset_stop s"
  "reset_stop (nullhandler sg s) = reset_stop s"
  "exited (sighandler sg s) = exited s"
  "exited (ignore_signal sg s) = exited s"
  "exited (nullhandler sg s) = exited s"
  "handlers (sighandler sg s) = handlers s"
  "handlers (ignore_signal sg s) = handlers s"
  "handlers (nullhandler sg s) = handlers s"
  "keyboard (sighandler sg s) = keyboard s"
  "keyboard (ignore_signal sg s) = keyboard s"
  "keyboard (nullhandler sg s) = keyboard s"
  by (simp_all add: sighandler_def ignore_signal_def nullhandler_def safe_write_def)

lemma deliver_reset_stop [simp]: "reset_stop (deliver sg s) = reset_stop s"
  by (simp add: deliver_def split: handler.split)

lemma fold_deliver_reset_stop [simp]: "reset_stop (fold deliver sigs s) = reset_stop s"
  by (induction sigs arbitrary: s) simp_all

lemma run_async_invariant:
  assumes "I s" and "\<And>op s. op \<in> set ops \<Longrightarrow> I s \<Longrightarrow> I (op s)"
    and "\<And>sg s. I s \<Longrightarrow> I (deliver sg s)"
  shows "I (run_async ops sch s)"
  using assms(1,2)
proof (induction ops arbitrary: sch s)
  case Nil
  then show ?case by simp
next
  case (Cons op ops)
  let ?sigs = "case sch of [] \<Rightarrow> [] | sigs # _ \<Rightarrow> sigs"
  have d: "I (fold deliver sigs s')" if "I s'" for sigs s'
    using that by (induction sigs arbitrary: s') (simp_all add: assms(3))
  have 1: "I (fold deliver ?sigs s)" using Cons.prems(1) by (rule d)
  then have 2: "I (op (fold deliver ?sigs s))" using Cons.prems(2) by simp
  have "I (run_async ops (tl sch) (op (fold deliver ?sigs s)))"
    by (rule Cons.IH [OF 2]) (use Cons.prems(2) in simp)
  with 1 show ?case by (simp add: Let_def)
qed

lemma quit_ops_keep_flag:
  assumes "op \<in> set (quit_ops e)" and "reset_stop s \<noteq> 0"
  shows "reset_stop (op s) \<noteq> 0"
  using assms by (auto simp: quit_ops_def)

lemma exithandler_ops_keep_flag:
  assumes "op \<in> set (exithandler_ops e type)" and "reset_stop s \<noteq> 0"
  shows "reset_stop (op s) \<noteq> 0"
  using assms by (auto simp: exithandler_ops_def quit_ops_def)

subsection \<open>What the command line can change\<close>

lemma args_frame_refl [simp]: "args_frame s s"
  by (simp add: args_frame_def)

lemma args_frame_trans: "args_frame s s' \<Longrightarrow> args_frame s' s'' \<Longrightarrow> args_frame s s''"
  by (auto simp: args_frame_def)

lemma args_frame_emit: "log_event ev \<Longrightarrow> args_frame s (emit ev s)"
  by (simp add: args_frame_def)

lemma args_frame_exit: "args_frame s (exit_call code s)"
  by (simp add: args_frame_def)

lemma args_frame_update [simp]:
  "args_frame s (s\<lparr>gid := g\<rparr>)"
  "args_frame s (s\<lparr>features_mask := m\<rparr>)"
  "args_frame s (s\<lparr>forceroot := f\<rparr>)"
  "args_frame s (s\<lparr>ignored_devices := l\<rparr>)"
  "args_frame s (s\<lparr>enable_experimental := x\<rparr>)"
  by (simp_all add: args_frame_def)

lemma args_frame_log_exit:
  "log_event ev \<Longrightarrow> args_frame s (exit_call code (emit ev s))"
  by (simp add: args_frame_def)

lemma args_frame_log_update:
  "log_event ev \<Longrightarrow> args_frame s s' \<Longrightarrow> args_frame s (emit ev s')"
  by (auto simp: args_frame_def)

lemma search_keymap_frame: "args_frame s (search_keymap e searchstr keymap j s)"
  by (induction e searchstr keymap j s rule: search_keymap.induct)
     (simp_all add: args_frame_log_exit)

lemma main_search_frame: "args_frame s (main_search e str s)"
  by (simp add: main_search_def search_keymap_frame split: prod.split)

lemma main_param_frame: "args_frame s (main_param e argument s)"
  by (simp add: main_param_def main_search_frame args_frame_log_update
      split: option.split prod.split)

lemma main_params_frame: "args_frame s (main_params e args s)"
proof (induction args arbitrary: s)
  case Nil
  then show ?case by simp
next
  case (Cons a args)
  show ?case
    using main_param_frame [of s e a] Cons.IH [of "main_param e a s"]
    by (auto simp: Let_def intro: args_frame_trans)
qed

lemma main_help_log: "main_help args = Some ev \<Longrightarrow> log_event ev"
  by (induction args) (auto split: if_splits)

lemma main_args_frame: "args_frame s (main_args e argv s)"
proof -
  let ?s1 = "emit (Printf ''ckb-next-daemon %s'') s"
  have "args_frame s (?s1\<lparr>forceroot := 1\<rparr>)"
    by (simp add: args_frame_def)
  then have "args_frame s (main_params e (tl argv) (?s1\<lparr>forceroot := 1\<rparr>))"
    using main_params_frame args_frame_trans by blast
  then show ?thesis
    by (cases "main_help (tl argv)")
       (auto simp: main_args_def Let_def args_frame_def dest: main_help_log)
qed

subsection \<open>Startup and the run of the USB subsystem\<close>

lemma mkdevpath_root_fields [simp]:
  "trace (mkdevpath_root e s) =
     trace s @ Mkdevpath 0 (mkdevpath e) #
       (if mkdevpath e = 0 then [Ckb_info ''Root controller ready at %s0''] else [])"
  "keyboard (mkdevpath_root e s) = keyboard s"
  "reset_stop (mkdevpath_root e s) = reset_stop s"
  "handlers (mkdevpath_root e s) = handlers s"
  "sighandler_pipe (mkdevpath_root e s) = sighandler_pipe s"
  "root_node (mkdevpath_root e s) = (mkdevpath e = 0 \<or> root_node s)"
  "exited (mkdevpath_root e s) = exited s"
  by (simp_all add: mkdevpath_root_def Let_def)

lemma main_setup_fields [simp]:
  "trace (main_setup e s) = trace s @ setup_events e"
  "keyboard (main_setup e s) = (\<lambda>i. zero_usbdevice)"
  "reset_stop (main_setup e s) = reset_stop s"
  "sighandler_pipe (main_setup e s) = sighandler_pipe s"
  "root_node (main_setup e s) = (mkdevpath e = 0 \<or> root_node s)"
  "exited (main_setup e s) = (if init_cond_monotonic e \<noteq> 0 then Some (Exited 1) else exited s)"
  by (simp_all add: main_setup_def setup_events_def Let_def)

lemma main_setup_handlers:
  "handlers (main_setup e s) =
     (if socketpair e \<noteq> - 1
      then (handlers s)(SIGTERM := H_sighandler, SIGINT := H_sighandler,
             SIGQUIT := H_sighandler, SIGUSR2 := H_nullhandler)
      else (handlers s)(SIGUSR2 := H_nullhandler))"
  by (simp add: main_setup_def Let_def)

lemma main_args_reset_stop [simp]: "reset_stop (main_args e argv s) = reset_stop s"
  using main_args_frame [of s e argv] by (simp add: args_frame_def)

lemma main_startup_reset_stop [simp]: "reset_stop (main_startup e argv s) = reset_stop s"
  by (simp add: main_startup_def Let_def)

lemma exithandler_fields [simp]:
  "reset_stop (exithandler e type s) = 1"
  "exited (exithandler e type s) = Some (Exited 0)"
  "root_node (exithandler e type s) = False"
  "sighandler_pipe (exithandler e type s) = sighandler_pipe s"
  by (simp_all add: exithandler_def Let_def)

lemma main_run_reset_stop [simp]: "reset_stop (main_run e s) = 1"
  by (simp add: main_run_def split: prod.split usb_outcome.split)

lemma main_reset_stop: "reset_stop (main e argv s) = 1 \<or> reset_stop (main e argv s) = reset_stop s"
  by (simp add: main_def Let_def)

subsection \<open>The reset-abort flag\<close>

text \<open>
  Claim C2.  The store of 1 to \<^verbatim>\<open>reset_stop\<close> is the first event of a run of
  \<^verbatim>\<open>quit\<close>, so every revert and close of the run comes after it, and the flag
  is 1 after each statement of \<^verbatim>\<open>quit\<close>.  No operation of \<^verbatim>\<open>main.c\<close> puts the
  flag back to 0: not \<^verbatim>\<open>quit\<close>, \<^verbatim>\<open>exithandler\<close> or \<^verbatim>\<open>main\<close>, not a signal handler
  that runs on delivery, and not \<^verbatim>\<open>exithandler\<close> with signals arriving between
  its statements.
\<close>

theorem reset_stop_set_first_and_kept:
  "take 1 (run_events (quit e) s) = [Store_reset_stop 1] \<and>
   (\<forall>p a. p < length (run_events (quit e) s) \<and>
      (run_events (quit e) s ! p = Revertusb a \<or> run_events (quit e) s ! p = Closeusb a)
      \<longrightarrow> 0 < p) \<and>
   quit e s = run_ops (quit_ops e) s \<and>
   (\<forall>k. 0 < k \<and> k \<le> length (quit_ops e) \<longrightarrow>
      reset_stop (run_ops (take k (quit_ops e)) s) = 1) \<and>
   (reset_stop s \<noteq> 0 \<longrightarrow>
      reset_stop (quit e s) \<noteq> 0 \<and> reset_stop (exithandler e type s) \<noteq> 0 \<and>
      reset_stop (deliver sg s) \<noteq> 0 \<and> reset_stop (main e argv s) \<noteq> 0 \<and>
      reset_stop (run_async (exithandler_ops e type) sch s) \<noteq> 0)"
proof (intro conjI allI impI)
  obtain evs1 evs2 where ev: "run_events (quit e) s =
      Store_reset_stop 1 # evs1 @ evs2 @
      [Ckb_info ''Closing root controller'', Rmdevpath 0, Usbkill]"
    using quit_events by blast
  show "take 1 (run_events (quit e) s) = [Store_reset_stop 1]"
    by (simp add: ev)
  show "0 < p"
    if "p < length (run_events (quit e) s) \<and>
        (run_events (quit e) s ! p = Revertusb a \<or> run_events (quit e) s ! p = Closeusb a)"
    for p a
    using that unfolding ev by (cases p) auto
  show "quit e s = run_ops (quit_ops e) s" by (rule quit_run_ops)
next
  fix k assume k: "0 < k \<and> k \<le> length (quit_ops e)"
  obtain rest where q: "quit_ops e = set_reset_stop # rest"
    by (simp add: quit_ops_def)
  obtain k' where k': "k = Suc k'" using k by (cases k) auto
  have keep: "reset_stop (op s') = reset_stop s'" if "op \<in> set rest" for op s'
    using that q by (auto simp: quit_ops_def)
  have "reset_stop (run_ops (take k' rest) (set_reset_stop s)) = 1"
    by (rule run_ops_invariant [where I = "\<lambda>s. reset_stop s = 1"])
       (auto dest: in_set_takeD simp: keep)
  then show "reset_stop (run_ops (take k (quit_ops e)) s) = 1"
    by (simp add: q k')
next
  assume nz: "reset_stop s \<noteq> 0"
  show "reset_stop (quit e s) \<noteq> 0" by simp
  show "reset_stop (exithandler e type s) \<noteq> 0" by simp
  show "reset_stop (deliver sg s) \<noteq> 0" using nz by simp
  show "reset_stop (main e argv s) \<noteq> 0"
    using nz main_reset_stop [of e argv s] by auto
  show "reset_stop (run_async (exithandler_ops e type) sch s) \<noteq> 0"
    by (rule run_async_invariant [where I = "\<lambda>s. reset_stop s \<noteq> 0"])
       (use nz in \<open>auto dest: exithandler_ops_keep_flag\<close>)
qed

text \<open>
  The theorem on the concrete daemon, whose flag is 0 at the start: it is 1
  after the first three statements of \<^verbatim>\<open>quit\<close>, the revert of slot 1 is event 2
  of the run, and a signal delivered after \<^verbatim>\<open>quit\<close> leaves the flag at 1.
\<close>

theorem reset_stop_set_first_and_kept_witness:
  "reset_stop demo_daemon = 0 \<and>
   (0::nat) < 3 \<and> 3 \<le> length (quit_ops demo_extern) \<and>
   reset_stop (run_ops (take 3 (quit_ops demo_extern)) demo_daemon) = 1 \<and>
   run_events (quit demo_extern) demo_daemon ! 2 = Revertusb 1 \<and> (0::nat) < 2 \<and>
   reset_stop (quit demo_extern demo_daemon) \<noteq> 0 \<and>
   reset_stop (deliver SIGINT (quit demo_extern demo_daemon)) \<noteq> 0 \<and>
   reset_stop (main demo_extern [''ckb-next-daemon''] (quit demo_extern demo_daemon)) \<noteq> 0"
proof -
  have z: "reset_stop demo_daemon = 0"
    by (simp add: demo_daemon_def boot_def)
  have k: "(0::nat) < 3 \<and> 3 \<le> length (quit_ops demo_extern)"
    by (simp add: quit_ops_def demo_extern_def)
  have p: "2 < length (run_events (quit demo_extern) demo_daemon) \<and>
      (run_events (quit demo_extern) demo_daemon ! 2 = Revertusb 1 \<or>
       run_events (quit demo_extern) demo_daemon ! 2 = Closeusb 1)"
    by (simp add: demo_quit_events)
  have r: "run_events (quit demo_extern) demo_daemon ! 2 = Revertusb 1"
    by (simp add: demo_quit_events)
  have nz: "reset_stop (quit demo_extern demo_daemon) \<noteq> 0" by simp
  note a = reset_stop_set_first_and_kept [of demo_extern demo_daemon]
  note b = reset_stop_set_first_and_kept
    [of demo_extern "quit demo_extern demo_daemon" 0 SIGINT "[''ckb-next-daemon'']" "[]"]
  from a k have 1: "reset_stop (run_ops (take 3 (quit_ops demo_extern)) demo_daemon) = 1"
    by blast
  from a p have 2: "(0::nat) < 2" by blast
  from b nz have 3: "reset_stop (deliver SIGINT (quit demo_extern demo_daemon)) \<noteq> 0"
    and 4: "reset_stop (main demo_extern [''ckb-next-daemon''] (quit demo_extern demo_daemon)) \<noteq> 0"
    by blast+
  from z k 1 r 2 nz 3 4 show ?thesis by blast
qed

subsection \<open>The events of \<^verbatim>\<open>main\<close>\<close>

lemma main_args_events:
  "trace (main_args e argv s) = trace s @ run_events (main_args e argv) s"
  "list_all log_event (run_events (main_args e argv) s)"
  using main_args_frame [of s e argv] by (auto simp: args_frame_def run_events_def)

lemma main_args_fields [simp]:
  "keyboard (main_args e argv s) = keyboard s"
  "handlers (main_args e argv s) = handlers s"
  "sighandler_pipe (main_args e argv s) = sighandler_pipe s"
  "root_node (main_args e argv s) = root_node s"
  using main_args_frame [of s e argv] by (simp_all add: args_frame_def)

lemma shutdown_runs_append [simp]:
  "shutdown_runs (xs @ ys) = shutdown_runs xs + shutdown_runs ys"
  by (simp add: shutdown_runs_def)

lemma shutdown_runs_Cons [simp]:
  "shutdown_runs (ev # evs) = (if ev = Store_reset_stop 1 then 1 else 0) + shutdown_runs evs"
  by (simp add: shutdown_runs_def)

lemma shutdown_runs_Nil [simp]: "shutdown_runs [] = 0"
  by (simp add: shutdown_runs_def)

lemma shutdown_runs_none: "Store_reset_stop 1 \<notin> set evs \<Longrightarrow> shutdown_runs evs = 0"
  by (induction evs) auto

lemma shutdown_runs_log: "list_all log_event evs \<Longrightarrow> shutdown_runs evs = 0"
  by (rule shutdown_runs_none) (auto simp: list_all_iff)

lemma shutdown_runs_setup [simp]: "shutdown_runs (setup_events e) = 0"
  by (simp add: setup_events_def)

lemma shutdown_runs_quit [simp]: "shutdown_runs (run_events (quit e) s) = 1"
proof -
  obtain evs1 evs2 where ev: "run_events (quit e) s =
        Store_reset_stop 1 # evs1 @ evs2 @
        [Ckb_info ''Closing root controller'', Rmdevpath 0, Usbkill]"
    and s1: "set evs1 \<subseteq> revert_events [1..<DEV_MAX e]"
    and s2: "set evs2 \<subseteq> close_events [1..<DEV_MAX e]"
    using quit_events by blast
  have "shutdown_runs evs1 = 0" "shutdown_runs evs2 = 0"
    using s1 s2 by (auto intro!: shutdown_runs_none simp: revert_events_def close_events_def)
  then show ?thesis by (simp add: ev)
qed

lemma main_startup_events:
  "run_events (main_startup e argv) s =
     run_events (main_args e argv) s @
     (if exited (main_args e argv s) \<noteq> None then [] else setup_events e)"
  by (rule run_eventsI) (simp add: main_startup_def Let_def main_args_events)

lemma trace_main_startup:
  "trace (main_startup e argv s) = trace s @ run_events (main_startup e argv) s"
  by (simp add: main_startup_events main_startup_def Let_def main_args_events)

lemma shutdown_runs_startup [simp]: "shutdown_runs (run_events (main_startup e argv) s) = 0"
  by (simp add: main_startup_events main_args_events shutdown_runs_log)

lemma main_startup_keyboard:
  "exited (main_startup e argv s) = None \<Longrightarrow> keyboard (main_startup e argv s) = (\<lambda>i. zero_usbdevice)"
  by (auto simp: main_startup_def Let_def split: if_splits)

lemma exithandler_events:
  "run_events (exithandler e type) s =
     [Signal_call SIGTERM H_ignore_signal, Signal_call SIGINT H_ignore_signal,
      Signal_call SIGQUIT H_ignore_signal, Printf_int ''[I] Caught signal %d'' type] @
     run_events (quit e)
       (emit (Printf_int ''[I] Caught signal %d'' type)
         (signal_call SIGQUIT H_ignore_signal
           (signal_call SIGINT H_ignore_signal (signal_call SIGTERM H_ignore_signal s)))) @
     [Exit_call 0]"
  by (rule run_eventsI) (simp add: exithandler_def Let_def trace_quit)

text \<open>The events of \<^verbatim>\<open>quit\<close> and the table it leaves depend on the table only.\<close>

lemma fold_revert_table:
  assumes "keyboard s = keyboard t"
  shows "run_events (fold (revert_slot e) slots) s = run_events (fold (revert_slot e) slots) t \<and>
         keyboard (fold (revert_slot e) slots s) = keyboard (fold (revert_slot e) slots t)"
  using assms
proof (induction slots arbitrary: s t)
  case Nil
  then show ?case by simp
next
  case (Cons i slots)
  have k: "keyboard (revert_slot e i s) = keyboard (revert_slot e i t)"
    using Cons.prems by simp
  show ?case
    unfolding run_events_fold_revert_Cons
    using Cons.IH [OF k] Cons.prems by simp
qed

lemma fold_close_table:
  assumes "keyboard s = keyboard t"
  shows "run_events (fold (close_slot e) slots) s = run_events (fold (close_slot e) slots) t \<and>
         keyboard (fold (close_slot e) slots s) = keyboard (fold (close_slot e) slots t)"
  using assms
proof (induction slots arbitrary: s t)
  case Nil
  then show ?case by simp
next
  case (Cons i slots)
  have k: "keyboard (close_slot e i s) = keyboard (close_slot e i t)"
    using Cons.prems by simp
  show ?case
    unfolding run_events_fold_close_Cons
    using Cons.IH [OF k] Cons.prems by simp
qed

lemma quit_events_table:
  assumes "keyboard s = keyboard t"
  shows "run_events (quit e) s = run_events (quit e) t"
proof -
  have 1: "keyboard (set_reset_stop s) = keyboard (set_reset_stop t)"
    using assms by simp
  note r = fold_revert_table [OF 1, of e "[1..<DEV_MAX e]"]
  note c = fold_close_table [OF r [THEN conjunct2], of e "[1..<DEV_MAX e]"]
  show ?thesis
    using r c by (simp add: run_events_quit run_events_quit_passes)
qed

lemma main_run_events:
  "run_events (main_run e) s =
     Usbmain_call #
     (case usbmain e (keyboard s) of
        (Usb_returned result, kb) \<Rightarrow>
          run_events (quit e) ((emit Usbmain_call s)\<lparr>keyboard := kb\<rparr>) @ [Exit_call result]
      | (Usb_signal type, kb) \<Rightarrow>
          run_events (exithandler e type) ((emit Usbmain_call s)\<lparr>keyboard := kb\<rparr>))"
proof (rule run_eventsI)
  obtain out kb where u: "usbmain e (keyboard s) = (out, kb)" by (cases "usbmain e (keyboard s)")
  let ?s = "(emit Usbmain_call s)\<lparr>keyboard := kb\<rparr>"
  have x: "trace (exithandler e type ?s) = trace s @ Usbmain_call # run_events (exithandler e type) ?s"
    for type
    by (simp add: exithandler_events) (simp add: exithandler_def Let_def trace_quit)
  show "trace (main_run e s) = trace s @ Usbmain_call #
     (case usbmain e (keyboard s) of
        (Usb_returned result, kb) \<Rightarrow>
          run_events (quit e) ((emit Usbmain_call s)\<lparr>keyboard := kb\<rparr>) @ [Exit_call result]
      | (Usb_signal type, kb) \<Rightarrow>
          run_events (exithandler e type) ((emit Usbmain_call s)\<lparr>keyboard := kb\<rparr>))"
    using x by (cases out) (simp_all add: main_run_def u trace_quit)
qed

lemma shutdown_runs_exithandler [simp]: "shutdown_runs (run_events (exithandler e type) s) = 1"
  by (simp add: exithandler_events)

lemma shutdown_runs_main_run [simp]: "shutdown_runs (run_events (main_run e) s) = 1"
  by (simp add: main_run_events split: prod.split usb_outcome.split)

lemma main_events:
  "run_events (main e argv) s =
     run_events (main_startup e argv) s @
     (if exited (main_startup e argv s) \<noteq> None then []
      else run_events (main_run e) (main_startup e argv s))"
proof (rule run_eventsI)
  have "trace (main_run e t) = trace t @ run_events (main_run e) t" for t
    by (simp add: main_run_events) (simp add: main_run_def exithandler_events trace_quit
        exithandler_def Let_def split: prod.split usb_outcome.split)
  then show "trace (main e argv s) = trace s @ run_events (main_startup e argv) s @
     (if exited (main_startup e argv s) \<noteq> None then []
      else run_events (main_run e) (main_startup e argv s))"
    by (simp add: main_def Let_def trace_main_startup)
qed

lemma main_run_exited:
  "exited (main_run e s) = Some (Exited (usb_exit_code (fst (usbmain e (keyboard s)))))"
  by (cases "usbmain e (keyboard s)"; cases "fst (usbmain e (keyboard s))")
     (simp_all add: main_run_def)

subsection \<open>Fatal failures at startup\<close>

text \<open>
  Claim C5 says that both fatal startup failures end the process before any
  device state exists.  That fails for the clock: \<^verbatim>\<open>init_cond_monotonic\<close> is
  called at line 307, after the device table has been zeroed and
  \<^verbatim>\<open>mkdevpath(keyboard)\<close> has created the root controller's node at line 285.
  In the run below every call succeeds but the clock: the process ends with
  status 1 and the node of the root controller exists.
\<close>

theorem clock_failure_leaves_root_node:
  "root_node boot = False \<and>
   exited (main (demo_extern\<lparr>init_cond_monotonic := 1\<rparr>) [''ckb-next-daemon''] boot)
     = Some (Exited 1) \<and>
   root_node (main (demo_extern\<lparr>init_cond_monotonic := 1\<rparr>) [''ckb-next-daemon''] boot) = True \<and>
   run_events (main (demo_extern\<lparr>init_cond_monotonic := 1\<rparr>) [''ckb-next-daemon'']) boot =
     [Printf ''ckb-next-daemon %s'',
      Mkdevpath 0 0, Ckb_info ''Root controller ready at %s0'',
      Socketpair_call 0,
      Signal_call SIGTERM H_sighandler, Signal_call SIGINT H_sighandler,
      Signal_call SIGQUIT H_sighandler,
      Sigaction_call SIGUSR2 H_nullhandler,
      Ckb_fatal ''Failed to initialize monotonic clock.'', Exit_call 1]"
  by (simp add: run_events_def main_def main_startup_def main_args_def main_setup_def
      mkdevpath_root_def signal_call_def exit_call_def emit_def Let_def demo_extern_def
      boot_def main_param_def)

text \<open>
  Claim C5, amended.  When the daemon is already running, \<^verbatim>\<open>main\<close> prints the
  version line and the three fatal lines and returns 1 before any device state
  exists: the device table, the root controller's node and the signal handlers
  are as at the start of the process.  When the clock cannot be initialized,
  \<^verbatim>\<open>main\<close> exits with status 1 after lines 282--303: the table has been zeroed,
  \<^verbatim>\<open>mkdevpath\<close> has been called for the root controller, whose node exists if
  that call returned 0, and the handlers have been installed; the USB subsystem
  has not been started, and no shutdown sequence runs, so nothing is removed.
\<close>

theorem fatal_startup_exits:
  "(main_help (tl argv) = None \<and> is_pid_running e \<noteq> 0 \<longrightarrow>
      exited (main e argv s0) = Some (Exited 1) \<and>
      keyboard (main e argv s0) = keyboard s0 \<and>
      root_node (main e argv s0) = root_node s0 \<and>
      handlers (main e argv s0) = handlers s0 \<and>
      run_events (main e argv) s0 =
        [Printf ''ckb-next-daemon %s'',
         Ckb_fatal ''ckb-next-daemon is already running (PID %ld).'',
         Ckb_fatal ''Try `systemctl stop ckb-next-daemon` or `killall ckb-next-daemon`.'',
         Ckb_fatal ''(If you're certain the process is dead, delete %s and try again.)'',
         Exit_call 1])
   \<and> (exited (main_args e argv s0) = None \<and> init_cond_monotonic e \<noteq> 0 \<longrightarrow>
      exited (main e argv s0) = Some (Exited 1) \<and>
      keyboard (main e argv s0) = (\<lambda>i. zero_usbdevice) \<and>
      root_node (main e argv s0) = (mkdevpath e = 0 \<or> root_node s0) \<and>
      run_events (main e argv) s0 = run_events (main_args e argv) s0 @ setup_events e \<and>
      Mkdevpath 0 (mkdevpath e) \<in> set (setup_events e) \<and>
      Usbmain_call \<notin> set (run_events (main e argv) s0) \<and>
      Rmdevpath 0 \<notin> set (run_events (main e argv) s0) \<and>
      shutdown_runs (run_events (main e argv) s0) = 0)"
proof (intro conjI impI)
  assume a: "main_help (tl argv) = None \<and> is_pid_running e \<noteq> 0"
  let ?s = "exit_call 1
     (emit (Ckb_fatal ''(If you're certain the process is dead, delete %s and try again.)'')
       (emit (Ckb_fatal ''Try `systemctl stop ckb-next-daemon` or `killall ckb-next-daemon`.'')
         (emit (Ckb_fatal ''ckb-next-daemon is already running (PID %ld).'')
           (emit (Printf ''ckb-next-daemon %s'') s0))))"
  have m: "main e argv s0 = ?s"
    using a by (simp add: main_def main_startup_def main_args_def Let_def)
  show "exited (main e argv s0) = Some (Exited 1)" by (simp add: m)
  show "keyboard (main e argv s0) = keyboard s0" by (simp add: m)
  show "root_node (main e argv s0) = root_node s0" by (simp add: m)
  show "handlers (main e argv s0) = handlers s0" by (simp add: m)
  show "run_events (main e argv) s0 =
        [Printf ''ckb-next-daemon %s'',
         Ckb_fatal ''ckb-next-daemon is already running (PID %ld).'',
         Ckb_fatal ''Try `systemctl stop ckb-next-daemon` or `killall ckb-next-daemon`.'',
         Ckb_fatal ''(If you're certain the process is dead, delete %s and try again.)'',
         Exit_call 1]"
    by (rule run_eventsI) (simp add: m)
next
  assume a: "exited (main_args e argv s0) = None \<and> init_cond_monotonic e \<noteq> 0"
  have m: "main e argv s0 = main_setup e (main_args e argv s0)"
    using a by (simp add: main_def main_startup_def Let_def)
  have ex: "exited (main_startup e argv s0) \<noteq> None"
    using a by (simp add: main_startup_def Let_def)
  have ev: "run_events (main e argv) s0 = run_events (main_args e argv) s0 @ setup_events e"
    using a ex by (simp add: main_events main_startup_events)
  have nolog: "\<not> log_event Usbmain_call" "\<not> log_event (Rmdevpath 0)" by simp_all
  have args: "Usbmain_call \<notin> set (run_events (main_args e argv) s0)"
    "Rmdevpath 0 \<notin> set (run_events (main_args e argv) s0)"
    using main_args_events(2) [of e argv s0] nolog by (auto simp: list_all_iff)
  show "exited (main e argv s0) = Some (Exited 1)" using a by (simp add: m)
  show "keyboard (main e argv s0) = (\<lambda>i. zero_usbdevice)" by (simp add: m)
  show "root_node (main e argv s0) = (mkdevpath e = 0 \<or> root_node s0)" by (simp add: m)
  show "run_events (main e argv) s0 = run_events (main_args e argv) s0 @ setup_events e"
    by (rule ev)
  show "Mkdevpath 0 (mkdevpath e) \<in> set (setup_events e)" by (simp add: setup_events_def)
  show "Usbmain_call \<notin> set (run_events (main e argv) s0)"
    using args by (simp add: ev setup_events_def)
  show "Rmdevpath 0 \<notin> set (run_events (main e argv) s0)"
    using args by (simp add: ev setup_events_def)
  show "shutdown_runs (run_events (main e argv) s0) = 0"
    using ex by (simp add: main_events)
qed

text \<open>
  The theorem on two runs: one with the daemon already running as PID 4242,
  one in which only the clock fails.
\<close>

theorem fatal_startup_exits_witness:
  "main_help (tl [''ckb-next-daemon'']) = None \<and>
   is_pid_running (demo_extern\<lparr>is_pid_running := 4242\<rparr>) \<noteq> 0 \<and>
   exited (main (demo_extern\<lparr>is_pid_running := 4242\<rparr>) [''ckb-next-daemon''] boot)
     = Some (Exited 1) \<and>
   root_node (main (demo_extern\<lparr>is_pid_running := 4242\<rparr>) [''ckb-next-daemon''] boot)
     = root_node boot \<and>
   exited (main_args (demo_extern\<lparr>init_cond_monotonic := 1\<rparr>) [''ckb-next-daemon''] boot) = None \<and>
   init_cond_monotonic (demo_extern\<lparr>init_cond_monotonic := 1\<rparr>) \<noteq> 0 \<and>
   exited (main (demo_extern\<lparr>init_cond_monotonic := 1\<rparr>) [''ckb-next-daemon''] boot)
     = Some (Exited 1) \<and>
   shutdown_runs (run_events (main (demo_extern\<lparr>init_cond_monotonic := 1\<rparr>)
     [''ckb-next-daemon'']) boot) = 0"
proof -
  let ?e1 = "demo_extern\<lparr>is_pid_running := 4242\<rparr>"
  let ?e2 = "demo_extern\<lparr>init_cond_monotonic := 1\<rparr>"
  have h1: "main_help (tl [''ckb-next-daemon'']) = None \<and> is_pid_running ?e1 \<noteq> 0"
    by (simp add: demo_extern_def)
  have h2: "exited (main_args ?e2 [''ckb-next-daemon''] boot) = None \<and>
      init_cond_monotonic ?e2 \<noteq> 0"
    by (simp add: main_args_def Let_def demo_extern_def boot_def)
  note t1 = fatal_startup_exits [of "[''ckb-next-daemon'']" ?e1 boot]
  note t2 = fatal_startup_exits [of "[''ckb-next-daemon'']" ?e2 boot]
  from t1 h1 have 1: "exited (main ?e1 [''ckb-next-daemon''] boot) = Some (Exited 1)"
    and 2: "root_node (main ?e1 [''ckb-next-daemon''] boot) = root_node boot"
    by blast+
  from t2 h2 have 3: "exited (main ?e2 [''ckb-next-daemon''] boot) = Some (Exited 1)"
    and 4: "shutdown_runs (run_events (main ?e2 [''ckb-next-daemon'']) boot) = 0"
    by blast+
  from h1 h2 1 2 3 4 show ?thesis by blast
qed

subsection \<open>The exit code\<close>

text \<open>
  Claim C6.  Whenever a run of \<^verbatim>\<open>main\<close> contains the shutdown sequence, its
  exit status is the one that belongs to the outcome of \<^verbatim>\<open>usbmain\<close>: the result
  code that \<^verbatim>\<open>usbmain\<close> returned, be it 0 or not, and 0 when the USB subsystem
  ended in \<^verbatim>\<open>exithandler\<close> on a signal.  The shutdown sequence runs exactly when
  startup has completed, and then once; a run whose startup ends the process
  contains no shutdown sequence.
\<close>

theorem exit_code_of_usb_subsystem:
  "(0 < shutdown_runs (run_events (main e argv) s0) \<longrightarrow>
      exited (main e argv s0) =
        Some (Exited (usb_exit_code (fst (usbmain e (\<lambda>i. zero_usbdevice))))) \<and>
      (\<forall>result kb. usbmain e (\<lambda>i. zero_usbdevice) = (Usb_returned result, kb) \<longrightarrow>
         exited (main e argv s0) = Some (Exited result)) \<and>
      (\<forall>type kb. usbmain e (\<lambda>i. zero_usbdevice) = (Usb_signal type, kb) \<longrightarrow>
         exited (main e argv s0) = Some (Exited 0)))
   \<and> shutdown_runs (run_events (main e argv) s0) =
       (if exited (main_startup e argv s0) = None then 1 else 0)"
proof -
  have runs: "shutdown_runs (run_events (main e argv) s0) =
       (if exited (main_startup e argv s0) = None then 1 else 0)"
    by (simp add: main_events)
  have code: "exited (main e argv s0) =
        Some (Exited (usb_exit_code (fst (usbmain e (\<lambda>i. zero_usbdevice)))))"
    if "0 < shutdown_runs (run_events (main e argv) s0)"
  proof -
    from that runs have alive: "exited (main_startup e argv s0) = None"
      by (simp split: if_splits)
    then show ?thesis
      by (simp add: main_def Let_def main_run_exited main_startup_keyboard)
  qed
  show ?thesis
    using runs code by auto
qed

text \<open>
  The theorem on the concrete daemon, whose USB subsystem returns 7, and on
  one whose USB subsystem ends on \<^verbatim>\<open>SIGINT\<close>.
\<close>

theorem exit_code_of_usb_subsystem_witness:
  "0 < shutdown_runs (run_events (main demo_extern [''ckb-next-daemon'']) boot) \<and>
   usbmain demo_extern (\<lambda>i. zero_usbdevice) = (Usb_returned 7, demo_table) \<and>
   exited (main demo_extern [''ckb-next-daemon''] boot) = Some (Exited 7) \<and>
   0 < shutdown_runs (run_events
         (main (demo_extern\<lparr>usbmain := (\<lambda>kb. (Usb_signal SIGINT, demo_table))\<rparr>)
           [''ckb-next-daemon'']) boot) \<and>
   exited (main (demo_extern\<lparr>usbmain := (\<lambda>kb. (Usb_signal SIGINT, demo_table))\<rparr>)
     [''ckb-next-daemon''] boot) = Some (Exited 0)"
proof -
  let ?e = "demo_extern\<lparr>usbmain := (\<lambda>kb. (Usb_signal SIGINT, demo_table))\<rparr>"
  have s1: "exited (main_startup demo_extern [''ckb-next-daemon''] boot) = None"
    by (simp add: main_startup_def main_args_def Let_def demo_extern_def boot_def)
  have s2: "exited (main_startup ?e [''ckb-next-daemon''] boot) = None"
    by (simp add: main_startup_def main_args_def Let_def demo_extern_def boot_def)
  note t1 = exit_code_of_usb_subsystem [of demo_extern "[''ckb-next-daemon'']" boot]
  note t2 = exit_code_of_usb_subsystem [of ?e "[''ckb-next-daemon'']" boot]
  have r1: "0 < shutdown_runs (run_events (main demo_extern [''ckb-next-daemon'']) boot)"
    using t1 s1 by simp
  have r2: "0 < shutdown_runs (run_events (main ?e [''ckb-next-daemon'']) boot)"
    using t2 s2 by simp
  have u1: "usbmain demo_extern (\<lambda>i. zero_usbdevice) = (Usb_returned 7, demo_table)"
    by (simp add: demo_extern_def)
  have u2: "usbmain ?e (\<lambda>i. zero_usbdevice) = (Usb_signal SIGINT, demo_table)"
    by simp
  from t1 r1 u1 have 1: "exited (main demo_extern [''ckb-next-daemon''] boot) = Some (Exited 7)"
    by blast
  from t2 r2 u2 have 2: "exited (main ?e [''ckb-next-daemon''] boot) = Some (Exited 0)"
    by blast
  from r1 u1 1 r2 2 show ?thesis by blast
qed

subsection \<open>Startup without the signal channel\<close>

text \<open>
  Claim C8.  When \<^verbatim>\<open>socketpair\<close> fails in a startup that reaches line 289, no
  handler is installed for a termination signal (no call of \<^verbatim>\<open>signal\<close> is
  made and the three dispositions are as at the start of the process), the
  warning is logged, and the failure does not end the process: such a startup
  ends the process only when the clock fails.  When then \<^verbatim>\<open>usbmain\<close> returns, \<^verbatim>\<open>main\<close> runs \<^verbatim>\<open>quit\<close> and
  exits with the result of \<^verbatim>\<open>usbmain\<close>; the events of that shutdown are the
  events that \<^verbatim>\<open>exithandler\<close> issues, between its own first four and its
  \<^verbatim>\<open>exit\<close>, on the same device table.
\<close>

theorem startup_without_signal_channel:
  assumes "socketpair e = - 1" and "exited (main_args e argv s0) = None"
  shows "(\<forall>sg. termination_signal sg \<longrightarrow> handlers (main_startup e argv s0) sg = handlers s0 sg) \<and>
         (\<forall>sg h. Signal_call sg h \<notin> set (run_events (main_startup e argv) s0)) \<and>
         Ckb_warn ''Unable to setup signal handlers'' \<in> set (run_events (main_startup e argv) s0) \<and>
         exited (main_startup e argv s0) =
           (if init_cond_monotonic e \<noteq> 0 then Some (Exited 1) else None) \<and>
         (init_cond_monotonic e = 0 \<and> usbmain e (\<lambda>i. zero_usbdevice) = (Usb_returned result, kb) \<longrightarrow>
            exited (main e argv s0) = Some (Exited result) \<and>
            (\<exists>shutdown.
               run_events (main e argv) s0 =
                 run_events (main_startup e argv) s0 @ Usbmain_call # shutdown @ [Exit_call result] \<and>
               shutdown_runs shutdown = 1 \<and>
               (\<forall>t type. keyboard t = kb \<longrightarrow>
                  run_events (quit e) t = shutdown \<and>
                  run_events (exithandler e type) t =
                    [Signal_call SIGTERM H_ignore_signal, Signal_call SIGINT H_ignore_signal,
                     Signal_call SIGQUIT H_ignore_signal,
                     Printf_int ''[I] Caught signal %d'' type] @ shutdown @ [Exit_call 0])))"
proof (intro conjI allI impI)
  have st: "main_startup e argv s0 = main_setup e (main_args e argv s0)"
    using assms(2) by (simp add: main_startup_def Let_def)
  have ev: "run_events (main_startup e argv) s0 = run_events (main_args e argv) s0 @ setup_events e"
    using assms(2) by (simp add: main_startup_events)
  have args: "Signal_call sg h \<notin> set (run_events (main_args e argv) s0)" for sg h
    using main_args_events(2) [of e argv s0] by (auto simp: list_all_iff)
  show "handlers (main_startup e argv s0) sg = handlers s0 sg" if "termination_signal sg" for sg
    using that assms(1)
    by (auto simp: st main_setup_handlers termination_signal_def SIGTERM_def SIGINT_def
        SIGQUIT_def SIGUSR2_def)
  show "Signal_call sg h \<notin> set (run_events (main_startup e argv) s0)" for sg h
    using args assms(1) by (simp add: ev setup_events_def)
  show "Ckb_warn ''Unable to setup signal handlers'' \<in> set (run_events (main_startup e argv) s0)"
    using assms(1) by (simp add: ev setup_events_def)
  show ex: "exited (main_startup e argv s0) =
      (if init_cond_monotonic e \<noteq> 0 then Some (Exited 1) else None)"
    using assms(2) by (simp add: st)
next
  assume a: "init_cond_monotonic e = 0 \<and> usbmain e (\<lambda>i. zero_usbdevice) = (Usb_returned result, kb)"
  have st: "main_startup e argv s0 = main_setup e (main_args e argv s0)"
    using assms(2) by (simp add: main_startup_def Let_def)
  have alive: "exited (main_startup e argv s0) = None"
    using assms(2) a by (simp add: st)
  have kbd: "keyboard (main_startup e argv s0) = (\<lambda>i. zero_usbdevice)"
    by (rule main_startup_keyboard [OF alive])
  show "exited (main e argv s0) = Some (Exited result)"
    using alive a kbd by (simp add: main_def Let_def main_run_exited)
  let ?t0 = "(emit Usbmain_call (main_startup e argv s0))\<lparr>keyboard := kb\<rparr>"
  let ?sh = "run_events (quit e) ?t0"
  have 1: "run_events (main e argv) s0 =
      run_events (main_startup e argv) s0 @ Usbmain_call # ?sh @ [Exit_call result]"
    using alive a kbd by (simp add: main_events main_run_events)
  have 2: "run_events (quit e) t = ?sh" if "keyboard t = kb" for t
    by (rule quit_events_table) (simp add: that)
  have 3: "run_events (exithandler e type) t =
      [Signal_call SIGTERM H_ignore_signal, Signal_call SIGINT H_ignore_signal,
       Signal_call SIGQUIT H_ignore_signal, Printf_int ''[I] Caught signal %d'' type] @
      ?sh @ [Exit_call 0]" if "keyboard t = kb" for t type
  proof -
    let ?t4 = "emit (Printf_int ''[I] Caught signal %d'' type)
         (signal_call SIGQUIT H_ignore_signal
           (signal_call SIGINT H_ignore_signal (signal_call SIGTERM H_ignore_signal t)))"
    have "keyboard ?t4 = keyboard ?t0" using that by simp
    then have "run_events (quit e) ?t4 = ?sh" by (rule quit_events_table)
    then show ?thesis unfolding exithandler_events by (simp only:)
  qed
  show "\<exists>shutdown.
       run_events (main e argv) s0 =
         run_events (main_startup e argv) s0 @ Usbmain_call # shutdown @ [Exit_call result] \<and>
       shutdown_runs shutdown = 1 \<and>
       (\<forall>t type. keyboard t = kb \<longrightarrow>
          run_events (quit e) t = shutdown \<and>
          run_events (exithandler e type) t =
            [Signal_call SIGTERM H_ignore_signal, Signal_call SIGINT H_ignore_signal,
             Signal_call SIGQUIT H_ignore_signal,
             Printf_int ''[I] Caught signal %d'' type] @ shutdown @ [Exit_call 0])"
  proof (intro exI [of _ ?sh] conjI allI impI)
    show "run_events (main e argv) s0 =
        run_events (main_startup e argv) s0 @ Usbmain_call # ?sh @ [Exit_call result]"
      by (rule 1)
    show "shutdown_runs ?sh = 1" by (rule shutdown_runs_quit)
    fix t :: daemon and type :: int
    assume k: "keyboard t = kb"
    show "run_events (quit e) t = ?sh" by (rule 2 [OF k])
    show "run_events (exithandler e type) t =
        [Signal_call SIGTERM H_ignore_signal, Signal_call SIGINT H_ignore_signal,
         Signal_call SIGQUIT H_ignore_signal, Printf_int ''[I] Caught signal %d'' type] @
        ?sh @ [Exit_call 0]"
      by (rule 3 [OF k])
  qed
qed

text \<open>
  The theorem on the concrete daemon with a failing \<^verbatim>\<open>socketpair\<close>: the three
  termination signals keep their default disposition, startup completes, and
  the process exits with the 7 that \<^verbatim>\<open>usbmain\<close> returns, after \<^verbatim>\<open>quit\<close>.
\<close>

theorem startup_without_signal_channel_witness:
  "socketpair (demo_extern\<lparr>socketpair := - 1\<rparr>) = - 1 \<and>
   exited (main_args (demo_extern\<lparr>socketpair := - 1\<rparr>) [''ckb-next-daemon''] boot) = None \<and>
   termination_signal SIGINT \<and>
   handlers (main_startup (demo_extern\<lparr>socketpair := - 1\<rparr>) [''ckb-next-daemon''] boot) SIGINT
     = SIG_DFL \<and>
   exited (main_startup (demo_extern\<lparr>socketpair := - 1\<rparr>) [''ckb-next-daemon''] boot) = None \<and>
   init_cond_monotonic (demo_extern\<lparr>socketpair := - 1\<rparr>) = 0 \<and>
   usbmain (demo_extern\<lparr>socketpair := - 1\<rparr>) (\<lambda>i. zero_usbdevice) = (Usb_returned 7, demo_table) \<and>
   exited (main (demo_extern\<lparr>socketpair := - 1\<rparr>) [''ckb-next-daemon''] boot) = Some (Exited 7) \<and>
   run_events (main (demo_extern\<lparr>socketpair := - 1\<rparr>) [''ckb-next-daemon'']) boot =
     [Printf ''ckb-next-daemon %s'',
      Mkdevpath 0 0, Ckb_info ''Root controller ready at %s0'',
      Socketpair_call (- 1), Ckb_warn ''Unable to setup signal handlers'',
      Sigaction_call SIGUSR2 H_nullhandler, Usbmain_call,
      Store_reset_stop 1,
      Mutex_lock 1, Revertusb 1, Mutex_unlock 1, Mutex_lock 2, Revertusb 2, Mutex_unlock 2,
      Mutex_lock 1, Closeusb 1, Mutex_unlock 1, Mutex_lock 2, Closeusb 2, Mutex_unlock 2,
      Ckb_info ''Closing root controller'', Rmdevpath 0, Usbkill, Exit_call 7]"
proof -
  let ?e = "demo_extern\<lparr>socketpair := - 1\<rparr>"
  have h1: "socketpair ?e = - 1" by simp
  have h2: "exited (main_args ?e [''ckb-next-daemon''] boot) = None"
    by (simp add: main_args_def Let_def demo_extern_def boot_def)
  have ts: "termination_signal SIGINT" by (simp add: termination_signal_def)
  have c: "init_cond_monotonic ?e = 0 \<and> usbmain ?e (\<lambda>i. zero_usbdevice) = (Usb_returned 7, demo_table)"
    by (simp add: demo_extern_def)
  have b: "handlers boot SIGINT = SIG_DFL" by (simp add: boot_def)
  have ev: "run_events (main ?e [''ckb-next-daemon'']) boot =
     [Printf ''ckb-next-daemon %s'',
      Mkdevpath 0 0, Ckb_info ''Root controller ready at %s0'',
      Socketpair_call (- 1), Ckb_warn ''Unable to setup signal handlers'',
      Sigaction_call SIGUSR2 H_nullhandler, Usbmain_call,
      Store_reset_stop 1,
      Mutex_lock 1, Revertusb 1, Mutex_unlock 1, Mutex_lock 2, Revertusb 2, Mutex_unlock 2,
      Mutex_lock 1, Closeusb 1, Mutex_unlock 1, Mutex_lock 2, Closeusb 2, Mutex_unlock 2,
      Ckb_info ''Closing root controller'', Rmdevpath 0, Usbkill, Exit_call 7]"
    by (simp add: run_events_def main_def main_startup_def main_args_def main_setup_def
        main_run_def quit_def mkdevpath_root_def exit_call_def emit_def Let_def
        set_reset_stop_def revert_slot_def close_slot_def rmdevpath_root_def active_def
        demo_extern_def demo_table_def zero_usbdevice_def boot_def upt_rec)
  note t = startup_without_signal_channel [OF h1 h2, of 7 demo_table]
  from t ts b have 1: "handlers (main_startup ?e [''ckb-next-daemon''] boot) SIGINT = SIG_DFL"
    by metis
  from t c have 2: "exited (main_startup ?e [''ckb-next-daemon''] boot) = None"
    by simp
  from t c have 3: "exited (main ?e [''ckb-next-daemon''] boot) = Some (Exited 7)"
    by blast
  from h1 h2 ts 1 2 c 3 ev show ?thesis by blast
qed

subsection \<open>Signals during the shutdown\<close>

lemma main_thread_simps [simp]:
  "main_thread [] = []"
  "main_thread (xs @ ys) = main_thread xs @ main_thread ys"
  "main_thread (ev # evs) = (if is_async ev then main_thread evs else ev # main_thread evs)"
  by (simp_all add: main_thread_def)

lemma shutdown_runs_main_thread: "shutdown_runs (main_thread tr) = shutdown_runs tr"
  by (induction tr) auto

lemma handler_traces [simp]:
  "trace (sighandler sg s) = trace s"
  "trace (ignore_signal sg s) = trace s @ warning sg"
  "trace (nullhandler sg s) = trace s @ [Safe_write ''[I] Caught internal signal SIGUSR2'']"
  "sighandler_pipe (sighandler sg s) = sighandler_pipe s @ [sg]"
  "sighandler_pipe (ignore_signal sg s) = sighandler_pipe s"
  "sighandler_pipe (nullhandler sg s) = sighandler_pipe s"
  "root_node (sighandler sg s) = root_node s"
  "root_node (ignore_signal sg s) = root_node s"
  "root_node (nullhandler sg s) = root_node s"
  by (simp_all add: sighandler_def ignore_signal_def nullhandler_def safe_write_def warning_def)

lemma main_thread_warning [simp]: "main_thread (warning sg) = []"
  by (simp add: warning_def)

lemma async_warning [simp]: "filter is_async (warning sg) = warning sg"
  by (simp add: warning_def)

lemma warnings_async [simp]:
  "main_thread (concat (map warning sigs)) = []"
  "filter is_async (concat (map warning sigs)) = concat (map warning sigs)"
  by (induction sigs) simp_all

text \<open>A process that has ended.\<close>

lemma deliver_exited: "exited s \<noteq> None \<Longrightarrow> deliver sg s = s"
  by (simp add: deliver_def)

lemma fold_deliver_exited: "exited s \<noteq> None \<Longrightarrow> fold deliver sigs s = s"
  by (induction sigs) (simp_all add: deliver_exited)

lemma run_async_exited: "exited s \<noteq> None \<Longrightarrow> run_async ops sch s = s"
  by (cases ops) (simp_all add: fold_deliver_exited Let_def)

lemma run_async_append:
  "run_async (ops @ ops') sch s = run_async ops' (drop (length ops) sch) (run_async ops sch s)"
proof (induction ops arbitrary: sch s)
  case Nil
  then show ?case by simp
next
  case (Cons op ops)
  let ?s1 = "fold deliver (case sch of [] \<Rightarrow> [] | sigs # _ \<Rightarrow> sigs) s"
  show ?case
  proof (cases "exited ?s1 = None")
    case True
    then show ?thesis
      using Cons.IH [of "tl sch" "op ?s1"] by (simp add: Let_def drop_Suc)
  next
    case False
    then show ?thesis
      by (simp add: Let_def run_async_exited)
  qed
qed

text \<open>The delivery of termination signals while none has the default disposition.\<close>

lemma deliver_agree:
  assumes "agree s t" and "armed s" and "termination_signal sg"
  shows "agree (deliver sg s) t \<and> armed (deliver sg s) \<and> exited (deliver sg s) = exited s"
proof -
  have h: "handlers s sg \<noteq> SIG_DFL"
    using assms(2,3) by (auto simp: armed_def termination_signal_def)
  show ?thesis
    using assms(1,2) h
    by (cases "handlers s sg") (auto simp: deliver_def agree_def armed_def)
qed

lemma fold_deliver_agree:
  assumes "agree s t" and "armed s" and "list_all termination_signal sigs"
  shows "agree (fold deliver sigs s) t \<and> armed (fold deliver sigs s) \<and>
         exited (fold deliver sigs s) = exited s"
  using assms
proof (induction sigs arbitrary: s)
  case Nil
  then show ?case by simp
next
  case (Cons sg sigs)
  have d: "agree (deliver sg s) t \<and> armed (deliver sg s) \<and> exited (deliver sg s) = exited s"
    using Cons.prems by (intro deliver_agree) simp_all
  show ?case
    using Cons.IH [of "deliver sg s"] d Cons.prems(3) by simp
qed

lemma schedule_head:
  "list_all (list_all termination_signal) sch \<Longrightarrow>
   list_all termination_signal (case sch of [] \<Rightarrow> [] | sigs # _ \<Rightarrow> sigs)"
  by (cases sch) simp_all

lemma schedule_tl:
  "list_all (list_all termination_signal) sch \<Longrightarrow> list_all (list_all termination_signal) (tl sch)"
  by (cases sch) simp_all

lemma schedule_drop:
  "list_all (list_all termination_signal) sch \<Longrightarrow>
   list_all (list_all termination_signal) (drop n sch)"
  by (auto simp: list_all_iff dest: in_set_dropD)

lemma run_async_agree:
  assumes "agree s t" and "exited s = None" and "armed s"
    and "\<forall>op\<in>set ops. calm op" and "list_all (list_all termination_signal) sch"
  shows "agree (run_async ops sch s) (run_ops ops t) \<and>
         exited (run_async ops sch s) = None \<and> armed (run_async ops sch s)"
  using assms
proof (induction ops arbitrary: sch s t)
  case Nil
  then show ?case by simp
next
  case (Cons op ops)
  let ?s1 = "fold deliver (case sch of [] \<Rightarrow> [] | sigs # _ \<Rightarrow> sigs) s"
  have c: "calm op" using Cons.prems(4) by simp
  have 1: "agree ?s1 t \<and> armed ?s1 \<and> exited ?s1 = exited s"
    using Cons.prems(1,3) schedule_head [OF Cons.prems(5)] by (rule fold_deliver_agree)
  have 2: "agree (op ?s1) (op t)" "exited (op ?s1) = None" "armed (op ?s1)"
    using c 1 Cons.prems(2) by (auto simp: calm_def)
  have "agree (run_async ops (tl sch) (op ?s1)) (run_ops ops (op t)) \<and>
        exited (run_async ops (tl sch) (op ?s1)) = None \<and>
        armed (run_async ops (tl sch) (op ?s1))"
    using 2 Cons.prems(4) schedule_tl [OF Cons.prems(5)] by (intro Cons.IH) simp_all
  then show ?case
    using 1 Cons.prems(2) by (simp add: Let_def)
qed

text \<open>The delivery of termination signals after the swap.\<close>

lemma deliver_swapped:
  assumes "exited s = None" and "swapped s" and "termination_signal sg"
  shows "deliver sg s = s\<lparr>trace := trace s @ warning sg\<rparr>"
proof -
  have "handlers s sg = H_ignore_signal"
    using assms(2,3) by (auto simp: swapped_def termination_signal_def)
  then show ?thesis
    using assms(1)
    by (simp add: deliver_def ignore_signal_def safe_write_def emit_def warning_def)
qed

lemma fold_deliver_swapped:
  assumes "exited s = None" and "swapped s" and "list_all termination_signal sigs"
  shows "fold deliver sigs s = s\<lparr>trace := trace s @ concat (map warning sigs)\<rparr>"
  using assms
proof (induction sigs arbitrary: s)
  case Nil
  then show ?case by simp
next
  case (Cons sg sigs)
  let ?s1 = "s\<lparr>trace := trace s @ warning sg\<rparr>"
  have d: "deliver sg s = ?s1"
    using Cons.prems by (intro deliver_swapped) simp_all
  have "fold deliver sigs ?s1 = ?s1\<lparr>trace := trace ?s1 @ concat (map warning sigs)\<rparr>"
    using Cons.prems by (intro Cons.IH) (simp_all add: swapped_def)
  then show ?case by (simp add: d)
qed

lemma take_Suc_schedule:
  "concat (take (Suc n) sch) = (case sch of [] \<Rightarrow> [] | sigs # _ \<Rightarrow> sigs) @ concat (take n (tl sch))"
  by (cases sch) simp_all

lemma run_async_swapped:
  assumes "exited s = None" and "swapped s"
    and "\<forall>op\<in>set ops. quiet op" and "list_all (list_all termination_signal) sch"
  shows "filter is_async (trace (run_async ops sch s)) =
           filter is_async (trace s) @ concat (map warning (concat (take (length ops) sch))) \<and>
         sighandler_pipe (run_async ops sch s) = sighandler_pipe s \<and>
         exited (run_async ops sch s) = None \<and> swapped (run_async ops sch s)"
  using assms
proof (induction ops arbitrary: sch s)
  case Nil
  then show ?case by simp
next
  case (Cons op ops)
  let ?sigs = "case sch of [] \<Rightarrow> [] | sigs # _ \<Rightarrow> sigs"
  let ?s1 = "s\<lparr>trace := trace s @ concat (map warning ?sigs)\<rparr>"
  have q: "quiet op" using Cons.prems(3) by simp
  have d: "fold deliver ?sigs s = ?s1"
    using Cons.prems(1,2) schedule_head [OF Cons.prems(4)] by (rule fold_deliver_swapped)
  have 1: "exited (op ?s1) = None" "swapped (op ?s1)"
    "sighandler_pipe (op ?s1) = sighandler_pipe s"
    "filter is_async (trace (op ?s1)) = filter is_async (trace s) @ concat (map warning ?sigs)"
    using q Cons.prems(1,2) by (simp_all add: quiet_def swapped_def)
  have ih: "filter is_async (trace (run_async ops (tl sch) (op ?s1))) =
           filter is_async (trace (op ?s1)) @
           concat (map warning (concat (take (length ops) (tl sch)))) \<and>
         sighandler_pipe (run_async ops (tl sch) (op ?s1)) = sighandler_pipe (op ?s1) \<and>
         exited (run_async ops (tl sch) (op ?s1)) = None \<and>
         swapped (run_async ops (tl sch) (op ?s1))"
    using 1 Cons.prems(3) schedule_tl [OF Cons.prems(4)] by (intro Cons.IH) simp_all
  have r: "run_async (op # ops) sch s = run_async ops (tl sch) (op ?s1)"
    using d Cons.prems(1) by (simp add: Let_def)
  show ?case
    unfolding r using ih 1 by (simp add: take_Suc_schedule)
qed

text \<open>The statements of \<^verbatim>\<open>exithandler\<close> before its \<^verbatim>\<open>exit\<close>.\<close>

lemma calm_emit: "calm (emit ev)"
  by (simp add: calm_def agree_def armed_def)

lemma calm_signal_call: "calm (signal_call sg H_ignore_signal)"
  by (simp add: calm_def agree_def armed_def)

lemma calm_quit_ops: "op \<in> set (quit_ops e) \<Longrightarrow> calm op"
  by (auto simp: quit_ops_def calm_def agree_def armed_def)

lemma quiet_emit: "\<not> is_async ev \<Longrightarrow> quiet (emit ev)"
  by (simp add: quiet_def)

lemma quiet_quit_ops: "op \<in> set (quit_ops e) \<Longrightarrow> quiet op"
  by (auto simp: quit_ops_def quiet_def)

lemma exithandler_ops_split:
  "exithandler_ops e type =
     [signal_call SIGTERM H_ignore_signal, signal_call SIGINT H_ignore_signal,
      signal_call SIGQUIT H_ignore_signal] @
     (emit (Printf_int ''[I] Caught signal %d'' type) # quit_ops e) @ [exit_call 0]"
  "take 3 (exithandler_ops e type) =
     [signal_call SIGTERM H_ignore_signal, signal_call SIGINT H_ignore_signal,
      signal_call SIGQUIT H_ignore_signal]"
  "drop 3 (exithandler_ops e type) =
     (emit (Printf_int ''[I] Caught signal %d'' type) # quit_ops e) @ [exit_call 0]"
  "length (exithandler_ops e type) - 3 = Suc (Suc (length (quit_ops e)))"
  by (simp_all add: exithandler_ops_def)

lemma run_async_last:
  assumes "exited s = None" and "swapped s" and "list_all (list_all termination_signal) sch"
  shows "run_async [exit_call 0] sch s =
         exit_call 0 (s\<lparr>trace := trace s @ concat (map warning (concat (take 1 sch)))\<rparr>)"
proof -
  let ?sigs = "case sch of [] \<Rightarrow> [] | sigs # _ \<Rightarrow> sigs"
  have d: "fold deliver ?sigs s = s\<lparr>trace := trace s @ concat (map warning ?sigs)\<rparr>"
    using assms(1,2) schedule_head [OF assms(3)] by (rule fold_deliver_swapped)
  have t: "concat (take (Suc 0) sch) = ?sigs" by (cases sch) simp_all
  show ?thesis
    using assms(1) by (simp add: d t Let_def)
qed


subsection \<open>One shutdown for all termination signals\<close>

text \<open>
  Claim C4.  \<^verbatim>\<open>exithandler\<close> is what the reader of the signal channel calls
  for the first termination signal it observes; the handlers of the three
  signals are then \<^verbatim>\<open>sighandler\<close>.  Let termination signals arrive at any
  points between the statements of \<^verbatim>\<open>exithandler\<close>.  Then the process ends
  with \<^verbatim>\<open>exit(0)\<close>, the main thread does exactly what it does when no signal
  arrives, and the run contains one shutdown sequence.  The three \<^verbatim>\<open>signal\<close>
  calls come first: once they are done all three signals are handled by
  \<^verbatim>\<open>ignore_signal\<close> and no shutdown sequence has started; from there on every
  signal that is delivered writes the three parts of the "already shutting
  down" warning and nothing else, and nothing more is queued on the channel.
  After the exit no signal and no second \<^verbatim>\<open>exithandler\<close> does anything.
\<close>

theorem one_shutdown_for_all_signals:
  assumes "exited s = None"
    and "handlers s SIGTERM = H_sighandler" and "handlers s SIGINT = H_sighandler"
    and "handlers s SIGQUIT = H_sighandler"
    and "list_all (list_all termination_signal) sch"
  shows "exited (run_async (exithandler_ops e type) sch s) = Some (Exited 0) \<and>
         main_thread (trace (run_async (exithandler_ops e type) sch s)) =
           main_thread (trace (exithandler e type s)) \<and>
         shutdown_runs (trace (run_async (exithandler_ops e type) sch s)) =
           shutdown_runs (trace s) + 1 \<and>
         swapped (swap_done e type sch s) \<and> exited (swap_done e type sch s) = None \<and>
         shutdown_runs (trace (swap_done e type sch s)) = shutdown_runs (trace s) \<and>
         run_async (exithandler_ops e type) sch s =
           run_async (drop 3 (exithandler_ops e type)) (drop 3 sch) (swap_done e type sch s) \<and>
         filter is_async (trace (run_async (exithandler_ops e type) sch s)) =
           filter is_async (trace (swap_done e type sch s)) @
           concat (map warning
             (concat (take (length (exithandler_ops e type) - 3) (drop 3 sch)))) \<and>
         sighandler_pipe (run_async (exithandler_ops e type) sch s) =
           sighandler_pipe (swap_done e type sch s) \<and>
         deliver sg (run_async (exithandler_ops e type) sch s) =
           run_async (exithandler_ops e type) sch s \<and>
         run_async (exithandler_ops e type') sch' (run_async (exithandler_ops e type) sch s) =
           run_async (exithandler_ops e type) sch s"
proof -
  define swap where "swap = [signal_call SIGTERM H_ignore_signal,
      signal_call SIGINT H_ignore_signal, signal_call SIGQUIT H_ignore_signal]"
  define mid where "mid = emit (Printf_int ''[I] Caught signal %d'' type) # quit_ops e"
  define s3 where "s3 = swap_done e type sch s"
  define s4 where "s4 = run_async mid (drop 3 sch) s3"
  define r where "r = run_async (exithandler_ops e type) sch s"
  define sch5 where "sch5 = drop (length mid) (drop 3 sch)"
  define w5 where "w5 = concat (map warning (concat (take 1 sch5)))"
  have ops: "exithandler_ops e type = swap @ mid @ [exit_call 0]"
    and ops_take: "take 3 (exithandler_ops e type) = swap"
    and ops_drop: "drop 3 (exithandler_ops e type) = mid @ [exit_call 0]"
    and ops_len: "length (exithandler_ops e type) - 3 = length mid + 1"
    by (simp_all add: swap_def mid_def exithandler_ops_split)
  have armed: "armed s" using assms(2-4) by (simp add: armed_def)
  have ag: "agree s s" by (simp add: agree_def)
  have s3: "s3 = run_async swap sch s"
    by (simp only: s3_def swap_done_def ops_take)
  \<comment> \<open>the three calls of \<^verbatim>\<open>signal\<close>\<close>
  have calm_swap: "\<forall>op\<in>set swap. calm op" by (simp add: swap_def calm_signal_call)
  have a3: "agree s3 (run_ops swap s) \<and> exited s3 = None \<and> armed s3"
    unfolding s3 using ag assms(1) armed calm_swap assms(5) by (rule run_async_agree)
  have "handlers (run_ops swap s) =
      (handlers s)(SIGTERM := H_ignore_signal, SIGINT := H_ignore_signal,
        SIGQUIT := H_ignore_signal)"
    by (simp add: swap_def)
  then have sw: "swapped s3"
    using a3 by (simp add: agree_def swapped_def SIGTERM_def SIGINT_def SIGQUIT_def)
  have alive3: "exited s3 = None" using a3 by simp
  have "main_thread (trace (run_ops swap s)) = main_thread (trace s) @
      [Signal_call SIGTERM H_ignore_signal, Signal_call SIGINT H_ignore_signal,
       Signal_call SIGQUIT H_ignore_signal]"
    by (simp add: swap_def)
  then have "shutdown_runs (main_thread (trace s3)) = shutdown_runs (main_thread (trace s))"
    using a3 by (simp add: agree_def)
  then have runs3: "shutdown_runs (trace s3) = shutdown_runs (trace s)"
    by (simp only: shutdown_runs_main_thread)
  \<comment> \<open>the rest, up to the exit\<close>
  have sch3: "list_all (list_all termination_signal) (drop 3 sch)"
    by (rule schedule_drop [OF assms(5)])
  have sch5: "list_all (list_all termination_signal) sch5"
    unfolding sch5_def by (rule schedule_drop [OF sch3])
  have split: "r = run_async (drop 3 (exithandler_ops e type)) (drop 3 sch) s3"
  proof -
    have len3: "length (take 3 (exithandler_ops e type)) = 3"
      by (simp add: exithandler_ops_split(2))
    show ?thesis
      unfolding r_def s3_def swap_done_def
      using run_async_append
        [of "take 3 (exithandler_ops e type)" "drop 3 (exithandler_ops e type)" sch s]
      by (simp only: append_take_drop_id len3)
  qed
  have calm_mid: "\<forall>op\<in>set mid. calm op"
    by (auto simp: mid_def calm_emit calm_quit_ops)
  have quiet_mid: "\<forall>op\<in>set mid. quiet op"
    by (auto simp: mid_def quiet_emit quiet_quit_ops)
  have a4: "agree s4 (run_ops mid (run_ops swap s)) \<and> exited s4 = None \<and> armed s4"
    unfolding s4_def using a3 calm_mid sch3 by (intro run_async_agree) simp_all
  have q4: "filter is_async (trace s4) =
        filter is_async (trace s3) @ concat (map warning (concat (take (length mid) (drop 3 sch)))) \<and>
      sighandler_pipe s4 = sighandler_pipe s3 \<and> exited s4 = None \<and> swapped s4"
    unfolding s4_def using alive3 sw quiet_mid sch3 by (rule run_async_swapped)
  \<comment> \<open>the exit\<close>
  have r: "r = exit_call 0 (s4\<lparr>trace := trace s4 @ w5\<rparr>)"
  proof -
    have "r = run_async [exit_call 0] sch5 s4"
      unfolding split ops_drop s4_def sch5_def by (rule run_async_append)
    also have "\<dots> = exit_call 0 (s4\<lparr>trace := trace s4 @ w5\<rparr>)"
      unfolding w5_def using q4 sch5 by (intro run_async_last) simp_all
    finally show ?thesis .
  qed
  have w5: "main_thread w5 = []" "filter is_async w5 = w5"
    unfolding w5_def by (rule warnings_async)+
  have seq: "exithandler e type s = exit_call 0 (run_ops mid (run_ops swap s))"
    by (simp only: exithandler_run_ops ops run_ops_append run_ops.simps)
  have ex: "exited r = Some (Exited 0)" by (simp add: r)
  have mt: "main_thread (trace r) = main_thread (trace (exithandler e type s))"
    using a4 by (simp add: r seq w5 agree_def)
  have "shutdown_runs (main_thread (trace r)) =
      shutdown_runs (main_thread (trace (exithandler e type s)))"
    by (simp only: mt)
  then have "shutdown_runs (trace r) = shutdown_runs (trace (exithandler e type s))"
    by (simp only: shutdown_runs_main_thread)
  also have "\<dots> = shutdown_runs (trace s) + 1"
    by (simp add: exithandler_def Let_def trace_quit)
  finally have runs: "shutdown_runs (trace r) = shutdown_runs (trace s) + 1" .
  have tk: "concat (take (length (exithandler_ops e type) - 3) (drop 3 sch)) =
      concat (take (length mid) (drop 3 sch)) @ concat (take 1 sch5)"
    unfolding ops_len sch5_def by (simp only: take_add concat_append)
  have as: "filter is_async (trace r) =
      filter is_async (trace s3) @
      concat (map warning (concat (take (length (exithandler_ops e type) - 3) (drop 3 sch))))"
    using q4 by (simp add: r w5 tk w5_def)
  have pipe: "sighandler_pipe r = sighandler_pipe s3"
    using q4 by (simp add: r)
  have d: "deliver sg r = r"
    by (rule deliver_exited) (simp add: ex)
  have again: "run_async (exithandler_ops e type') sch' r = r"
    by (rule run_async_exited) (simp add: ex)
  show ?thesis
    using ex mt runs sw alive3 runs3 split as pipe d again
    unfolding r_def s3_def by (intro conjI)
qed

text \<open>
  The theorem on the concrete daemon, for \<^verbatim>\<open>exithandler(SIGINT)\<close>: a second
  \<^verbatim>\<open>SIGINT\<close> arrives before the first \<^verbatim>\<open>signal\<close> call and is queued by
  \<^verbatim>\<open>sighandler\<close>; a \<^verbatim>\<open>SIGQUIT\<close> arrives before the \<^verbatim>\<open>printf\<close>, and a \<^verbatim>\<open>SIGTERM\<close> and
  a \<^verbatim>\<open>SIGINT\<close> arrive during \<^verbatim>\<open>quit\<close>: each of those three writes the warning.
  There is one shutdown sequence, and the process exits with 0.
\<close>

theorem one_shutdown_for_all_signals_witness:
  "exited demo_daemon = None \<and>
   handlers demo_daemon SIGTERM = H_sighandler \<and> handlers demo_daemon SIGINT = H_sighandler \<and>
   handlers demo_daemon SIGQUIT = H_sighandler \<and>
   list_all (list_all termination_signal) demo_schedule \<and>
   exited (run_async (exithandler_ops demo_extern SIGINT) demo_schedule demo_daemon)
     = Some (Exited 0) \<and>
   shutdown_runs (trace (run_async (exithandler_ops demo_extern SIGINT) demo_schedule demo_daemon))
     = 1 \<and>
   sighandler_pipe (run_async (exithandler_ops demo_extern SIGINT) demo_schedule demo_daemon)
     = [SIGINT] \<and>
   filter is_async
     (trace (run_async (exithandler_ops demo_extern SIGINT) demo_schedule demo_daemon))
     = warning SIGQUIT @ warning SIGTERM @ warning SIGINT"
proof -
  let ?r = "run_async (exithandler_ops demo_extern SIGINT) demo_schedule demo_daemon"
  let ?s3 = "swap_done demo_extern SIGINT demo_schedule demo_daemon"
  have h: "exited demo_daemon = None"
    "handlers demo_daemon SIGTERM = H_sighandler" "handlers demo_daemon SIGINT = H_sighandler"
    "handlers demo_daemon SIGQUIT = H_sighandler"
    by (simp_all add: demo_daemon_def boot_def termination_signal_def)
  have sch: "list_all (list_all termination_signal) demo_schedule"
    by (simp add: demo_schedule_def termination_signal_def)
  have t0: "shutdown_runs (trace demo_daemon) = 0"
    by (simp add: demo_daemon_def boot_def)
  have s3: "sighandler_pipe ?s3 = [SIGINT]" "filter is_async (trace ?s3) = []"
    by (simp_all add: swap_done_def exithandler_ops_split(2) demo_schedule_def Let_def
        deliver_def demo_daemon_def boot_def termination_signal_def)
  have len: "length (exithandler_ops demo_extern SIGINT) - 3 = 10"
    by (simp add: exithandler_ops_def quit_ops_def demo_extern_def)
  have w: "concat (map warning (concat (take 10 (drop 3 demo_schedule)))) =
      warning SIGQUIT @ warning SIGTERM @ warning SIGINT"
    by (simp add: demo_schedule_def)
  note t = one_shutdown_for_all_signals [OF h sch, of demo_extern SIGINT]
  from t have 1: "exited ?r = Some (Exited 0)" by blast
  from t have "shutdown_runs (trace ?r) = shutdown_runs (trace demo_daemon) + 1" by blast
  then have 2: "shutdown_runs (trace ?r) = 1" by (simp add: t0)
  from t have "sighandler_pipe ?r = sighandler_pipe ?s3" by blast
  then have 3: "sighandler_pipe ?r = [SIGINT]" by (simp only: s3)
  from t have "filter is_async (trace ?r) = filter is_async (trace ?s3) @
      concat (map warning (concat (take (length (exithandler_ops demo_extern SIGINT) - 3)
        (drop 3 demo_schedule))))"
    by blast
  then have 4: "filter is_async (trace ?r) = warning SIGQUIT @ warning SIGTERM @ warning SIGINT"
    by (simp only: s3 len w append_Nil)
  from h sch 1 2 3 4 show ?thesis by (intro conjI)
qed

end
